theory Spec2Isabelle
  imports Main "HOL-Library.Word" "HOL-Library.AList"
begin

chapter \<open>The program\<close>

text \<open>
  The authentication and step-up state machine of the demo client: the PKCE helpers,
  the session helpers over \<^verbatim>\<open>sessionStorage\<close>, the exchange of an authorization code for
  tokens, the redirect-landing effect that consumes a code once, the email-OTP step-up
  handlers, and \<open>fetchVehicles\<close>. Each function of the source is a function on values
  and on the explicit state of the component; what the platform provides (SHA-256,
  JSON, the storage, the network, the configuration) is modelled or taken as a
  parameter where it is introduced.
\<close>

section \<open>PKCE helpers: base64UrlEncode and sha256\<close>

text \<open>
  Source: \<^verbatim>\<open>src/ui/InsuranceDemoApp.tsx\<close>, lines 28-38 (the same text stands in
  \<^verbatim>\<open>src/ui/ChatPanel.tsx\<close>, lines 473-487).

  A \<^verbatim>\<open>Uint8Array\<close> is a list of 8-bit words. A JavaScript string is a list of code
  units; the embedding keeps the code units 0..255, which is all that \<^verbatim>\<open>btoa\<close>
  accepts and all that the verifier alphabet of \<^verbatim>\<open>randomString\<close> uses.
\<close>

type_synonym u8 = "8 word"

definition String_fromCharCode :: "u8 list \<Rightarrow> string" where
  "String_fromCharCode codes = map (\<lambda>b. char_of (unat b)) codes"

definition b64_alphabet :: string where
  "b64_alphabet = ''ABCDEFGHIJKLMNOPQRSTUVWXYZabcdefghijklmnopqrstuvwxyz0123456789+/''"

definition b64_digit :: "nat \<Rightarrow> char" where
  "b64_digit i = b64_alphabet ! i"

text \<open>
  \<^verbatim>\<open>btoa\<close> of the platform: standard base64 (RFC 4648, section 4) of a binary string,
  three bytes to four digits, padded with \<^verbatim>\<open>=\<close> to a multiple of four. Every index
  handed to \<open>b64_digit\<close> is below 64 because a code unit is below 256.
\<close>

fun btoa :: "string \<Rightarrow> string" where
  "btoa [] = []"
| "btoa [a] =
     [b64_digit (of_char a div 4), b64_digit ((of_char a mod 4) * 16),
      CHR ''='', CHR ''='']"
| "btoa [a, b] =
     [b64_digit (of_char a div 4),
      b64_digit ((of_char a mod 4) * 16 + of_char b div 16),
      b64_digit ((of_char b mod 16) * 4),
      CHR ''='']"
| "btoa (a # b # c # rest) =
     [b64_digit (of_char a div 4),
      b64_digit ((of_char a mod 4) * 16 + of_char b div 16),
      b64_digit ((of_char b mod 16) * 4 + of_char c div 64),
      b64_digit (of_char c mod 64)] @ btoa rest"

text \<open>\<^verbatim>\<open>s.replace(/x/g, y)\<close> for a one-character pattern \<open>x\<close> and replacement \<open>y\<close>.\<close>

definition replace_all :: "char \<Rightarrow> char \<Rightarrow> string \<Rightarrow> string" where
  "replace_all x y s = map (\<lambda>c. if c = x then y else c) s"

text \<open>\<^verbatim>\<open>s.replace(/=+$/, "")\<close>: the run of \<^verbatim>\<open>=\<close> that ends the string is removed.\<close>

definition strip_trailing_eq :: "string \<Rightarrow> string" where
  "strip_trailing_eq s = rev (dropWhile (\<lambda>c. c = CHR ''='') (rev s))"

definition base64UrlEncode :: "u8 list \<Rightarrow> string" where
  "base64UrlEncode arrayBuffer =
     (let uint8Array = arrayBuffer;
          base64 = btoa (String_fromCharCode uint8Array)
      in strip_trailing_eq (replace_all (CHR ''/'') (CHR ''_'') (replace_all (CHR ''+'') (CHR ''-'') base64)))"

text \<open>
  \<^verbatim>\<open>new TextEncoder().encode(buffer)\<close>: UTF-8. A code unit below 128 is one byte, a
  code unit in 128..255 is the two bytes \<open>110000xx 10xxxxxx\<close>.
\<close>

definition utf8_unit :: "char \<Rightarrow> u8 list" where
  "utf8_unit c =
     (let n = (of_char c :: nat)
      in if n < 128 then [of_nat n] else [of_nat (192 + n div 64), of_nat (128 + n mod 64)])"

definition TextEncoder_encode :: "string \<Rightarrow> u8 list" where
  "TextEncoder_encode buffer = concat (map utf8_unit buffer)"

text \<open>
  \<^verbatim>\<open>sha256(buffer)\<close>. The digest \<^verbatim>\<open>crypto.subtle.digest("SHA-256", data)\<close> is the
  platform's; it is the parameter \<open>digest\<close>, a function from the bytes hashed to the
  bytes of the hash (32 of them for SHA-256).
\<close>

definition sha256 :: "(u8 list \<Rightarrow> u8 list) \<Rightarrow> string \<Rightarrow> string" where
  "sha256 digest buffer =
     (let data = TextEncoder_encode buffer;
          digest_bytes = digest data
      in base64UrlEncode digest_bytes)"

subsection \<open>The encoding the specification names\<close>

text \<open>
  base64url without padding (RFC 4648, section 5, padding omitted), written directly:
  the alphabet ends in \<^verbatim>\<open>-\<close> and \<^verbatim>\<open>_\<close>, and a last group of one or two bytes gives
  two or three digits.
\<close>

definition b64url_alphabet :: string where
  "b64url_alphabet = ''ABCDEFGHIJKLMNOPQRSTUVWXYZabcdefghijklmnopqrstuvwxyz0123456789-_''"

definition b64url_digit :: "nat \<Rightarrow> char" where
  "b64url_digit i = b64url_alphabet ! i"

fun base64url_nopad :: "u8 list \<Rightarrow> string" where
  "base64url_nopad [] = []"
| "base64url_nopad [a] =
     [b64url_digit (unat a div 4), b64url_digit ((unat a mod 4) * 16)]"
| "base64url_nopad [a, b] =
     [b64url_digit (unat a div 4),
      b64url_digit ((unat a mod 4) * 16 + unat b div 16),
      b64url_digit ((unat b mod 16) * 4)]"
| "base64url_nopad (a # b # c # rest) =
     [b64url_digit (unat a div 4),
      b64url_digit ((unat a mod 4) * 16 + unat b div 16),
      b64url_digit ((unat b mod 16) * 4 + unat c div 64),
      b64url_digit (unat c mod 64)] @ base64url_nopad rest"

text \<open>The challenge as the specification words it.\<close>

definition challengeFor_spec :: "(u8 list \<Rightarrow> u8 list) \<Rightarrow> string \<Rightarrow> string" where
  "challengeFor_spec digest verifier = base64url_nopad (digest (TextEncoder_encode verifier))"

text \<open>The two character replacements of \<open>base64UrlEncode\<close>, as one function on characters.\<close>

definition url_safe :: "char \<Rightarrow> char" where
  "url_safe c = (if (if c = CHR ''+'' then CHR ''-'' else c) = CHR ''/'' then CHR ''_'' else (if c = CHR ''+'' then CHR ''-'' else c))"

section \<open>The platform: JSON values, JSON.stringify and JSON.parse\<close>

text \<open>
  The values the handlers inspect are JSON values. Numbers are the integers (JavaScript's
  doubles are outside the type), strings are lists of code units 0..255, and an object is
  its list of members in order; a member read finds the last member of that name.
  \<^verbatim>\<open>undefined\<close> is not a JSON value: an expression that may be undefined has the type
  \<open>json option\<close>, with \<open>None\<close> for \<^verbatim>\<open>undefined\<close>.
\<close>

datatype json =
    JNull
  | JBool bool
  | JNum int
  | JStr string
  | JArr "json list"
  | JObj "(string \<times> json) list"

text \<open>The double quote and the backslash.\<close>

definition dquote :: char where "dquote = CHR 0x22"

definition bslash :: char where "bslash = CHR 0x5C"

definition digit_char :: "nat \<Rightarrow> char" where
  "digit_char d = char_of (48 + d)"

definition is_digit :: "char \<Rightarrow> bool" where
  "is_digit c \<longleftrightarrow> 48 \<le> (of_char c :: nat) \<and> (of_char c :: nat) \<le> 57"

definition digit_val :: "char \<Rightarrow> nat" where
  "digit_val c = of_char c - 48"

fun string_of_nat :: "nat \<Rightarrow> string" where
  "string_of_nat n =
     (if n < 10 then [digit_char n] else string_of_nat (n div 10) @ [digit_char (n mod 10)])"

declare string_of_nat.simps [simp del]

definition nat_of_digits :: "string \<Rightarrow> nat" where
  "nat_of_digits ds = foldl (\<lambda>acc c. 10 * acc + digit_val c) 0 ds"

definition string_of_int :: "int \<Rightarrow> string" where
  "string_of_int i = (if i < 0 then CHR ''-'' # string_of_nat (nat (- i)) else string_of_nat (nat i))"

text \<open>
  \<^verbatim>\<open>JSON.stringify\<close> on the values of the type \<open>json\<close>: no white space; in a string
  the double quote, the backslash and the control characters are escaped, the control
  characters without a short escape as \<^verbatim>\<open>\u00XX\<close>; an integer in decimal digits,
  as \<^verbatim>\<open>JSON.stringify\<close> writes the integers a JavaScript number holds exactly.
  The handlers apply it to the request bodies they build.
\<close>

definition hex_char :: "nat \<Rightarrow> char" where
  "hex_char d = ''0123456789abcdef'' ! d"

definition escape_char :: "char \<Rightarrow> string" where
  "escape_char c =
     (if c = dquote then [bslash, dquote]
      else if c = bslash then [bslash, bslash]
      else if c = CHR 0x08 then [bslash, CHR ''b'']
      else if c = CHR 0x0C then [bslash, CHR ''f'']
      else if c = CHR 0x0A then [bslash, CHR ''n'']
      else if c = CHR 0x0D then [bslash, CHR ''r'']
      else if c = CHR 0x09 then [bslash, CHR ''t'']
      else if (of_char c :: nat) < 32
        then [bslash, CHR ''u'', CHR ''0'', CHR ''0'', hex_char (of_char c div 16), hex_char (of_char c mod 16)]
      else [c])"

definition json_quote :: "string \<Rightarrow> string" where
  "json_quote s = dquote # concat (map escape_char s) @ [dquote]"

fun JSON_stringify :: "json \<Rightarrow> string"
  and stringify_elems :: "json list \<Rightarrow> string"
  and stringify_members :: "(string \<times> json) list \<Rightarrow> string"
where
  "JSON_stringify JNull = ''null''"
| "JSON_stringify (JBool b) = (if b then ''true'' else ''false'')"
| "JSON_stringify (JNum i) = string_of_int i"
| "JSON_stringify (JStr s) = json_quote s"
| "JSON_stringify (JArr xs) = CHR ''['' # stringify_elems xs"
| "JSON_stringify (JObj kvs) = CHR ''{'' # stringify_members kvs"
| "stringify_elems [] = '']''"
| "stringify_elems [x] = JSON_stringify x @ '']''"
| "stringify_elems (x # y # ys) = JSON_stringify x @ CHR '','' # stringify_elems (y # ys)"
| "stringify_members [] = ''}''"
| "stringify_members [(k, v)] = json_quote k @ CHR '':'' # JSON_stringify v @ ''}''"
| "stringify_members ((k, v) # m # ms) =
     json_quote k @ CHR '':'' # JSON_stringify v @ CHR '','' # stringify_members (m # ms)"

text \<open>
  \<^verbatim>\<open>JSON.stringify\<close> and \<^verbatim>\<open>JSON.parse\<close> belong to the platform, not to the
  repository, and the session helpers are written for a value of any type
  (\<^verbatim>\<open>value: any\<close>). The helpers, and the handlers that call them, take the two
  functions as a parameter, the pair \<open>J\<close>, at any type of values: \<open>stringify J v\<close> is
  the text \<^verbatim>\<open>JSON.stringify(v)\<close> returns, \<open>None\<close> when it throws (a cyclic object, a
  BigInt); \<open>parse J t\<close> is the value \<^verbatim>\<open>JSON.parse(t)\<close> returns, \<open>None\<close> when it throws
  a SyntaxError. For \<^verbatim>\<open>undefined\<close>, where \<^verbatim>\<open>JSON.stringify\<close> returns \<^verbatim>\<open>undefined\<close>,
  the text is the one \<^verbatim>\<open>setItem\<close> stores for it, \<^verbatim>\<open>undefined\<close>. The theorems about the
  helpers and the handlers hold for every pair.
\<close>

record 'v JSON_api =
  stringify :: "'v \<Rightarrow> string option"
  parse :: "string \<Rightarrow> 'v option"

text \<open>
  One such pair, for the concrete instances: \<open>JSON_stringify\<close> above, and a parser by
  recursive descent for the texts that denote a value of the type \<open>json\<close>. The fuel of
  \<open>parse_value\<close> is the length of the text, which bounds the nesting and the number of
  elements. \<open>parse_text\<close> is \<open>None\<close> on a text that is not JSON, and also on a JSON text
  whose value is outside the type (a number with a fraction or an exponent, an escape
  \<^verbatim>\<open>\uXXXX\<close> above 00FF), where \<^verbatim>\<open>JSON.parse\<close> returns that value; it reads an
  integer of any size exactly, where \<^verbatim>\<open>JSON.parse\<close> rounds beyond 2^53. The concrete
  instances apply \<open>parse_text\<close> to texts \<open>JSON_stringify\<close> has written, where it returns
  the value written, and to \<^verbatim>\<open>undefined\<close>, which is not JSON; no statement below is
  about it on any other text.
\<close>

definition is_ws :: "char \<Rightarrow> bool" where
  "is_ws c \<longleftrightarrow> c = CHR '' '' \<or> c = CHR 0x09 \<or> c = CHR 0x0A \<or> c = CHR 0x0D"

definition skip_ws :: "string \<Rightarrow> string" where
  "skip_ws s = dropWhile is_ws s"

definition parse_number :: "string \<Rightarrow> (int \<times> string) option" where
  "parse_number s =
     (let neg = (s \<noteq> [] \<and> hd s = CHR ''-'');
          body = (if neg then tl s else s);
          ds = takeWhile is_digit body;
          rest = dropWhile is_digit body
      in if ds = [] then None
         else if hd ds = CHR ''0'' \<and> 1 < length ds then None
         else if rest \<noteq> [] \<and> (hd rest = CHR ''.'' \<or> hd rest = CHR ''e'' \<or> hd rest = CHR ''E'') then None
         else Some (if neg then - int (nat_of_digits ds) else int (nat_of_digits ds), rest))"

definition unescape :: "char \<Rightarrow> char option" where
  "unescape e =
     (if e = dquote then Some dquote
      else if e = bslash then Some bslash
      else if e = CHR ''/'' then Some (CHR ''/'')
      else if e = CHR ''b'' then Some (CHR 0x08)
      else if e = CHR ''f'' then Some (CHR 0x0C)
      else if e = CHR ''n'' then Some (CHR 0x0A)
      else if e = CHR ''r'' then Some (CHR 0x0D)
      else if e = CHR ''t'' then Some (CHR 0x09)
      else None)"

definition hex_val :: "char \<Rightarrow> nat option" where
  "hex_val c =
     (let n = (of_char c :: nat)
      in if 48 \<le> n \<and> n \<le> 57 then Some (n - 48)
         else if 97 \<le> n \<and> n \<le> 102 then Some (n - 87)
         else if 65 \<le> n \<and> n \<le> 70 then Some (n - 55)
         else None)"

definition parse_hex4 :: "string \<Rightarrow> nat option" where
  "parse_hex4 s =
     (case map hex_val (take 4 s) of
        [Some a, Some b, Some c, Some d] \<Rightarrow> Some (((a * 16 + b) * 16 + c) * 16 + d)
      | _ \<Rightarrow> None)"

fun parse_chars :: "string \<Rightarrow> (string \<times> string) option" where
  "parse_chars [] = None"
| "parse_chars (c # r) =
     (if c = dquote then Some ([], r)
      else if c = bslash then
        (case r of
           [] \<Rightarrow> None
         | e # r' \<Rightarrow>
             if e = CHR ''u'' then
               (case parse_hex4 r' of
                  None \<Rightarrow> None
                | Some code \<Rightarrow>
                    if code < 256
                    then map_option (\<lambda>(s, t). (char_of code # s, t)) (parse_chars (drop 4 r'))
                    else None)
             else
               (case unescape e of
                  None \<Rightarrow> None
                | Some ch \<Rightarrow> map_option (\<lambda>(s, t). (ch # s, t)) (parse_chars r')))
      else if (of_char c :: nat) < 32 then None
      else map_option (\<lambda>(s, t). (c # s, t)) (parse_chars r))"

fun parse_value :: "nat \<Rightarrow> string \<Rightarrow> (json \<times> string) option"
  and parse_elems :: "nat \<Rightarrow> string \<Rightarrow> (json list \<times> string) option"
  and parse_members :: "nat \<Rightarrow> string \<Rightarrow> ((string \<times> json) list \<times> string) option"
where
  "parse_value 0 s = None"
| "parse_value (Suc n) s =
     (let t = skip_ws s in
      if take 4 t = ''null'' then Some (JNull, drop 4 t)
      else if take 4 t = ''true'' then Some (JBool True, drop 4 t)
      else if take 5 t = ''false'' then Some (JBool False, drop 5 t)
      else if t = [] then None
      else if hd t = dquote then
        map_option (\<lambda>(str, r). (JStr str, r)) (parse_chars (tl t))
      else if hd t = CHR ''['' then
        (if take 1 (skip_ws (tl t)) = '']'' then Some (JArr [], tl (skip_ws (tl t)))
         else map_option (\<lambda>(xs, r). (JArr xs, r)) (parse_elems n (tl t)))
      else if hd t = CHR ''{'' then
        (if take 1 (skip_ws (tl t)) = ''}'' then Some (JObj [], tl (skip_ws (tl t)))
         else map_option (\<lambda>(kvs, r). (JObj kvs, r)) (parse_members n (tl t)))
      else map_option (\<lambda>(i, r). (JNum i, r)) (parse_number t))"
| "parse_elems 0 s = None"
| "parse_elems (Suc n) s =
     (case parse_value n s of
        None \<Rightarrow> None
      | Some (x, r) \<Rightarrow>
          (let t = skip_ws r in
           if take 1 t = '']'' then Some ([x], tl t)
           else if take 1 t = '','' then map_option (\<lambda>(xs, r'). (x # xs, r')) (parse_elems n (tl t))
           else None))"
| "parse_members 0 s = None"
| "parse_members (Suc n) s =
     (let t = skip_ws s in
      if take 1 t \<noteq> [dquote] then None
      else
        (case parse_chars (tl t) of
           None \<Rightarrow> None
         | Some (k, r) \<Rightarrow>
             (let u = skip_ws r in
              if take 1 u \<noteq> '':'' then None
              else
                (case parse_value n (tl u) of
                   None \<Rightarrow> None
                 | Some (v, r') \<Rightarrow>
                     (let w = skip_ws r' in
                      if take 1 w = ''}'' then Some ([(k, v)], tl w)
                      else if take 1 w = '','' then
                        map_option (\<lambda>(kvs, r''). ((k, v) # kvs, r'')) (parse_members n (tl w))
                      else None)))))"

definition parse_text :: "string \<Rightarrow> json option" where
  "parse_text stored =
     (case parse_value (length stored) stored of
        None \<Rightarrow> None
      | Some (v, r) \<Rightarrow> if skip_ws r = [] then Some v else None)"

definition fragment_JSON :: "json JSON_api" where
  "fragment_JSON = \<lparr>stringify = (\<lambda>v. Some (JSON_stringify v)), parse = parse_text\<rparr>"

text \<open>What may follow a number in a JSON text: nothing that would continue it.\<close>

definition delimited :: "string \<Rightarrow> bool" where
  "delimited rest \<longleftrightarrow>
     rest = [] \<or> (\<not> is_digit (hd rest) \<and> hd rest \<noteq> CHR ''.'' \<and> hd rest \<noteq> CHR ''e'' \<and> hd rest \<noteq> CHR ''E'')"

text \<open>The characters a serialized value can start with.\<close>

definition value_start :: "char \<Rightarrow> bool" where
  "value_start c \<longleftrightarrow>
     c = CHR ''n'' \<or> c = CHR ''t'' \<or> c = CHR ''f'' \<or> c = CHR ''-'' \<or> c = dquote
     \<or> c = CHR ''['' \<or> c = CHR ''{'' \<or> is_digit c"

section \<open>Session storage and the session helpers\<close>

text \<open>
  Source: \<^verbatim>\<open>src/ui/InsuranceDemoApp.tsx\<close>, lines 52-56 (and \<^verbatim>\<open>src/ui/ChatPanel.tsx\<close>,
  lines 512-521).

  What JavaScript throws is a value of \<open>js_error\<close>; \<open>Error\<close> and \<open>TypeError\<close> carry
  their message.
\<close>

datatype js_error =
    SecurityError
  | QuotaExceededError
  | TypeError string
  | Error string

text \<open>
  \<^verbatim>\<open>sessionStorage\<close> of the platform: the stored strings by key, a quota on their total
  size (\<^verbatim>\<open>setItem\<close> throws a QuotaExceededError beyond it), and whether the browser
  denies access to the storage (every operation then throws a SecurityError).
\<close>

record session_storage =
  items :: "(string \<times> string) list"
  quota :: nat
  access_denied :: bool

definition usage :: "(string \<times> string) list \<Rightarrow> nat" where
  "usage kvs = sum_list (map (\<lambda>(k, v). length k + length v) kvs)"

definition getItem :: "session_storage \<Rightarrow> string \<Rightarrow> js_error + string option" where
  "getItem st key =
     (if access_denied st then Inl SecurityError else Inr (map_of (items st) key))"

definition setItem :: "session_storage \<Rightarrow> string \<Rightarrow> string \<Rightarrow> js_error + session_storage" where
  "setItem st key v =
     (if access_denied st then Inl SecurityError
      else if quota st < usage (AList.update key v (items st)) then Inl QuotaExceededError
      else Inr (st\<lparr>items := AList.update key v (items st)\<rparr>))"

definition removeItem :: "session_storage \<Rightarrow> string \<Rightarrow> js_error + session_storage" where
  "removeItem st key =
     (if access_denied st then Inl SecurityError
      else Inr (st\<lparr>items := AList.delete key (items st)\<rparr>))"

text \<open>
  \<^verbatim>\<open>function saveSession(key, value) { try { sessionStorage.setItem(key, JSON.stringify(value)); } catch {} }\<close>
\<close>

definition saveSession :: "'v JSON_api \<Rightarrow> session_storage \<Rightarrow> string \<Rightarrow> 'v \<Rightarrow> session_storage" where
  "saveSession J st key val =
     (case stringify J val of
        None \<Rightarrow> st
      | Some serialized \<Rightarrow>
          (case setItem st key serialized of
             Inl e \<Rightarrow> st
           | Inr st' \<Rightarrow> st'))"

text \<open>
  \<^verbatim>\<open>function loadSession(key, fallback = null) {\<close>
  \<^verbatim>\<open>  try { const v = sessionStorage.getItem(key); return v ? JSON.parse(v) : fallback; } catch { return fallback; } }\<close>
\<close>

definition loadSession :: "'v JSON_api \<Rightarrow> session_storage \<Rightarrow> string \<Rightarrow> 'v \<Rightarrow> 'v" where
  "loadSession J st key fallback =
     (case getItem st key of
        Inl e \<Rightarrow> fallback
      | Inr None \<Rightarrow> fallback
      | Inr (Some v) \<Rightarrow>
          if v = [] then fallback
          else (case parse J v of None \<Rightarrow> fallback | Some parsed \<Rightarrow> parsed))"

section \<open>JavaScript expressions over JSON values\<close>

text \<open>
  The operators the handlers apply to values of unknown shape. A value that may be
  \<^verbatim>\<open>undefined\<close> is a \<open>json option\<close>.
\<close>

text \<open>
  Truthiness: \<^verbatim>\<open>null\<close>, \<^verbatim>\<open>false\<close>, \<^verbatim>\<open>0\<close> and \<^verbatim>\<open>""\<close> are falsy (and so is
  \<^verbatim>\<open>undefined\<close>), every array and object is truthy.
\<close>

fun truthy :: "json \<Rightarrow> bool" where
  "truthy JNull = False"
| "truthy (JBool b) = b"
| "truthy (JNum i) = (i \<noteq> 0)"
| "truthy (JStr s) = (s \<noteq> [])"
| "truthy (JArr xs) = True"
| "truthy (JObj kvs) = True"

text \<open>
  \<^verbatim>\<open>a && b\<close> and \<^verbatim>\<open>a || b\<close>.
\<close>

definition js_and :: "json \<Rightarrow> json \<Rightarrow> json" where
  "js_and a b = (if truthy a then b else a)"

definition js_or :: "json \<Rightarrow> json \<Rightarrow> json" where
  "js_or a b = (if truthy a then a else b)"

text \<open>
  \<^verbatim>\<open>v1 || v2 || ... || last\<close>: the first truthy operand, the last operand when there is
  none.
\<close>

fun first_truthy :: "json option list \<Rightarrow> json \<Rightarrow> json" where
  "first_truthy [] last_operand = last_operand"
| "first_truthy (None # vs) last_operand = first_truthy vs last_operand"
| "first_truthy (Some v # vs) last_operand = (if truthy v then v else first_truthy vs last_operand)"

text \<open>
  \<^verbatim>\<open>v.name\<close> for \<open>v\<close> neither \<^verbatim>\<open>null\<close> nor \<^verbatim>\<open>undefined\<close>, and \<^verbatim>\<open>v?.name\<close>. The names the
  program reads are own members of an object only: a string, number, boolean or array
  has none of them (none is an index, \<^verbatim>\<open>length\<close> or a method name; \<^verbatim>\<open>find\<close> is treated
  apart, in \<open>links_find_href\<close>).
\<close>

definition member :: "json \<Rightarrow> string \<Rightarrow> json option" where
  "member v name = (case v of JObj kvs \<Rightarrow> map_of (rev kvs) name | _ \<Rightarrow> None)"

text \<open>
  An assignment \<^verbatim>\<open>o.name = v\<close>, on the list of members of \<open>o\<close>: a member of that name
  keeps its place and takes the value, a new member goes to the end. An object literal
  \<^verbatim>\<open>{ ...o, k1: v1, k2: v2 }\<close> assigns its members in order to the members spread.
\<close>

definition set_member :: "string \<Rightarrow> json \<Rightarrow> (string \<times> json) list \<Rightarrow> (string \<times> json) list" where
  "set_member name v kvs =
     (if name \<in> set (map fst kvs)
      then map (\<lambda>(k, w). if k = name then (k, v) else (k, w)) kvs
      else kvs @ [(name, v)])"

definition assign_members :: "(string \<times> json) list \<Rightarrow> (string \<times> json) list \<Rightarrow> (string \<times> json) list" where
  "assign_members kvs ms = foldl (\<lambda>acc (k, v). set_member k v acc) kvs ms"

definition opt_member :: "json option \<Rightarrow> string \<Rightarrow> json option" where
  "opt_member v name =
     (case v of None \<Rightarrow> None | Some JNull \<Rightarrow> None | Some j \<Rightarrow> member j name)"

text \<open>
  \<^verbatim>\<open>v?.[0]\<close>: the first element of an array, the first code unit of a string, the
  member \<^verbatim>\<open>"0"\<close> of an object.
\<close>

definition opt_first :: "json option \<Rightarrow> json option" where
  "opt_first v =
     (case v of
        Some (JArr xs) \<Rightarrow> (case xs of [] \<Rightarrow> None | x # rest \<Rightarrow> Some x)
      | Some (JStr s) \<Rightarrow> (case s of [] \<Rightarrow> None | c # rest \<Rightarrow> Some (JStr [c]))
      | Some (JObj kvs) \<Rightarrow> map_of (rev kvs) ''0''
      | _ \<Rightarrow> None)"

text \<open>
  \<^verbatim>\<open>String(v)\<close>, also what a template literal and \<^verbatim>\<open>URLSearchParams.set\<close> apply: an
  array is its elements joined by commas, \<^verbatim>\<open>null\<close> elements as the empty string.
\<close>

fun join_comma :: "string list \<Rightarrow> string" where
  "join_comma [] = []"
| "join_comma [x] = x"
| "join_comma (x # y # ys) = x @ CHR '','' # join_comma (y # ys)"

fun js_String :: "json \<Rightarrow> string" where
  "js_String JNull = ''null''"
| "js_String (JBool b) = (if b then ''true'' else ''false'')"
| "js_String (JNum i) = string_of_int i"
| "js_String (JStr s) = s"
| "js_String (JArr xs) = join_comma (map (\<lambda>x. if x = JNull then [] else js_String x) xs)"
| "js_String (JObj kvs) = ''[object Object]''"

definition js_String_opt :: "json option \<Rightarrow> string" where
  "js_String_opt v = (case v of None \<Rightarrow> ''undefined'' | Some j \<Rightarrow> js_String j)"

text \<open>
  \<^verbatim>\<open>e?.message || String(e)\<close> of a caught exception.
\<close>

definition message_or_String :: "js_error \<Rightarrow> string" where
  "message_or_String e =
     (case e of
        SecurityError \<Rightarrow> ''SecurityError''
      | QuotaExceededError \<Rightarrow> ''QuotaExceededError''
      | TypeError msg \<Rightarrow> (if msg = [] then ''TypeError'' else msg)
      | Error msg \<Rightarrow> (if msg = [] then ''Error'' else msg))"

section \<open>Configuration, network and component state\<close>

text \<open>
  \<^verbatim>\<open>OIDC_CONFIG\<close> and \<^verbatim>\<open>API_CONFIG\<close> come from \<^verbatim>\<open>src/config\<close>, which is deployment
  configuration: the constants the handlers read are the fields of a parameter.
\<close>

record config =
  CLIENT_ID :: string
  CLIENT_ID2 :: string
  TOKEN_ENDPOINT :: string
  REDIRECT_URI :: string
  BUY_INSURANCE_URL :: string
  GET_VEHICLES_URL :: string

text \<open>
  A \<^verbatim>\<open>fetch\<close> request: a form body is its list of \<^verbatim>\<open>URLSearchParams\<close>, a text body the
  string handed over. A response is what the handlers read of it: the status,
  \<^verbatim>\<open>res.text()\<close> and \<^verbatim>\<open>res.json()\<close> (\<open>None\<close> when the body is not JSON and \<^verbatim>\<open>res.json()\<close>
  rejects). \<^verbatim>\<open>fetch\<close> itself rejects on a network failure. The network is a parameter:
  what each request is answered with.
\<close>

datatype request_body = NoBody | Form "(string \<times> string) list" | Text string

record request =
  req_url :: string
  req_method :: string
  req_headers :: "(string \<times> string) list"
  req_body :: request_body

record response =
  status :: nat
  body_text :: string
  body_json :: "json option"

definition ok :: "response \<Rightarrow> bool" where
  "ok res \<longleftrightarrow> 200 \<le> status res \<and> status res \<le> 299"

datatype fetch_result = Rejected js_error | Resolved response

type_synonym network = "request \<Rightarrow> fetch_result"

text \<open>
  The state of the component \<^verbatim>\<open>InsuranceOIDCDemoApp\<close> (lines 62-85): the \<^verbatim>\<open>useState\<close>
  variables the modelled handlers read or write, the ref \<^verbatim>\<open>exchangingRef\<close>, the session
  storage, and the log of the requests issued so far. A handler is a function from the
  state in which it was created to the state it leaves. A \<^verbatim>\<open>useState\<close> variable read
  inside a running handler is the constant bound by the render that created the
  handler: a setter changes the state of the next render, not that constant. The ref
  and the storage are read and written in place.
\<close>

record app =
  error :: string
  tokens :: json
  otpVisible :: bool
  otpValue :: string
  otpRequesting :: bool
  otpError :: "string option"
  otpResponse :: json
  purchaseSuccess :: bool
  selectedVehicle :: json
  quote :: json
  exchangingRef :: bool
  sessionStorage :: session_storage
  net_log :: "request list"

text \<open>
  A token-exchange call: a request to the token endpoint whose form carries
  \<^verbatim>\<open>grant_type=authorization_code\<close>.
\<close>

definition is_code_exchange :: "config \<Rightarrow> request \<Rightarrow> bool" where
  "is_code_exchange C r \<longleftrightarrow>
     req_url r = TOKEN_ENDPOINT C \<and>
     (case req_body r of
        Form params \<Rightarrow> map_of params ''grant_type'' = Some ''authorization_code''
      | _ \<Rightarrow> False)"

definition token_calls :: "config \<Rightarrow> app \<Rightarrow> nat" where
  "token_calls C s = length (filter (is_code_exchange C) (net_log s))"

section \<open>exchangeCodeForTokens\<close>

text \<open>
  Source: \<^verbatim>\<open>src/ui/InsuranceDemoApp.tsx\<close>, lines 430-466 (and \<^verbatim>\<open>src/ui/ChatPanel.tsx\<close>,
  lines 888-927). The function has one await that matters, on \<^verbatim>\<open>fetch\<close>: \<open>exchange_begin\<close>
  is the part that runs up to it and issues the request, \<open>exchange_finish\<close> the part that
  handles the answer.
\<close>

text \<open>
  \<^verbatim>\<open>try { json._client_id = clientIdUsed; } catch {}\<close>: an object gains the member, a
  primitive is left as it is (the assignment throws in strict mode and is caught).
\<close>

definition set_client_id :: "json \<Rightarrow> json \<Rightarrow> json" where
  "set_client_id j clientIdUsed =
     (case j of JObj kvs \<Rightarrow> JObj (set_member ''_client_id'' clientIdUsed kvs) | _ \<Rightarrow> j)"

definition exchange_request :: "config \<Rightarrow> string \<Rightarrow> json \<Rightarrow> json \<Rightarrow> request" where
  "exchange_request C code clientIdUsed codeVerifier =
     \<lparr>req_url = TOKEN_ENDPOINT C, req_method = ''POST'',
      req_headers = [(''Content-Type'', ''application/x-www-form-urlencoded'')],
      req_body = Form
        [(''grant_type'', ''authorization_code''),
         (''client_id'', js_String clientIdUsed),
         (''code'', code),
         (''redirect_uri'', REDIRECT_URI C),
         (''code_verifier'', js_String codeVerifier)]\<rparr>"

definition exchange_begin :: "config \<Rightarrow> json JSON_api \<Rightarrow> string \<Rightarrow> string \<Rightarrow> app \<Rightarrow> (request \<times> json) option \<times> app" where
  "exchange_begin C J code state s =
     (let codeVerifier =
            js_or (js_and (JStr state) (loadSession J (sessionStorage s) (''pkce_verifier:'' @ state) JNull))
                  (loadSession J (sessionStorage s) ''pkce_verifier'' JNull);
          clientIdUsed =
            js_or (js_and (JStr state) (loadSession J (sessionStorage s) (''pkce_client:'' @ state) JNull))
                  (JStr (CLIENT_ID C))
      in if \<not> truthy codeVerifier
         then (None, s\<lparr>error := ''Missing PKCE verifier. Please sign in again.''\<rparr>)
         else (Some (exchange_request C code clientIdUsed codeVerifier, clientIdUsed),
               s\<lparr>net_log := net_log s @ [exchange_request C code clientIdUsed codeVerifier]\<rparr>))"

text \<open>
  \<^verbatim>\<open>try { sessionStorage.removeItem(`pkce_verifier:${state}`); sessionStorage.removeItem(`pkce_client:${state}`); } catch {}\<close>
\<close>

definition remove_flow_entries :: "session_storage \<Rightarrow> string \<Rightarrow> session_storage" where
  "remove_flow_entries st state =
     (case removeItem st (''pkce_verifier:'' @ state) of
        Inl e \<Rightarrow> st
      | Inr st1 \<Rightarrow>
          (case removeItem st1 (''pkce_client:'' @ state) of
             Inl e \<Rightarrow> st1
           | Inr st2 \<Rightarrow> st2))"

definition exchange_finish :: "json JSON_api \<Rightarrow> string \<Rightarrow> json \<Rightarrow> fetch_result \<Rightarrow> app \<Rightarrow> app" where
  "exchange_finish J state clientIdUsed result s =
     (case result of
        Rejected e \<Rightarrow> s\<lparr>error := ''Token exchange error: '' @ message_or_String e\<rparr>
      | Resolved res \<Rightarrow>
          if \<not> ok res then
            (let txt = body_text res
             in s\<lparr>error := ''Token exchange failed ('' @ string_of_nat (status res) @ ''). ''
                     @ (if txt = [] then ''See Network tab.'' else txt)\<rparr>)
          else
            (case body_json res of
               None \<Rightarrow> s\<lparr>error := ''Token response not JSON.''\<rparr>
             | Some j \<Rightarrow>
                 if \<not> truthy j then s\<lparr>error := ''Token response not JSON.''\<rparr>
                 else
                   (let j' = set_client_id j clientIdUsed;
                        s1 = s\<lparr>tokens := j', sessionStorage := saveSession J (sessionStorage s) ''tokens'' j'\<rparr>
                    in if state \<noteq> []
                       then s1\<lparr>sessionStorage := remove_flow_entries (sessionStorage s1) state\<rparr>
                       else s1)))"

definition exchangeCodeForTokens :: "config \<Rightarrow> json JSON_api \<Rightarrow> network \<Rightarrow> string \<Rightarrow> string \<Rightarrow> app \<Rightarrow> app" where
  "exchangeCodeForTokens C J net code state s =
     (case exchange_begin C J code state s of
        (None, s1) \<Rightarrow> s1
      | (Some (req, clientIdUsed), s1) \<Rightarrow> exchange_finish J state clientIdUsed (net req) s1)"

section \<open>The redirect-landing effect\<close>

text \<open>
  Source: \<^verbatim>\<open>src/ui/InsuranceDemoApp.tsx\<close>, lines 405-428 (and \<^verbatim>\<open>src/ui/ChatPanel.tsx\<close>,
  lines 863-886). \<open>code_param\<close> and \<open>state_param\<close> are \<^verbatim>\<open>url.searchParams.get("code")\<close>
  and \<^verbatim>\<open>get("state")\<close>, \<open>None\<close> for \<^verbatim>\<open>null\<close>.

  \<open>landing_guard\<close> is the synchronous part up to the launch of the async function: the
  checks, the flag, the marker. \<^verbatim>\<open>sessionStorage.getItem\<close> and \<^verbatim>\<open>setItem\<close> stand outside
  any \<^verbatim>\<open>try\<close> there, so what they throw leaves the effect (\<open>Threw\<close>).
\<close>

datatype guard_result = NoOp | Threw js_error | Launched string string

definition landing_guard :: "json JSON_api \<Rightarrow> string option \<Rightarrow> string option \<Rightarrow> app \<Rightarrow> guard_result \<times> app" where
  "landing_guard J code_param state_param s =
     (let storedState = loadSession J (sessionStorage s) ''pkce_state'' JNull in
      case code_param of
        None \<Rightarrow> (NoOp, s)
      | Some code \<Rightarrow>
          (case state_param of
             None \<Rightarrow> (NoOp, s)
           | Some state \<Rightarrow>
               if code = [] \<or> state = [] \<or> JStr state \<noteq> storedState then (NoOp, s)
               else
                 (let usedKey = ''pkce_code_used:'' @ state @ '':'' @ code in
                  case getItem (sessionStorage s) usedKey of
                    Inl e \<Rightarrow> (Threw e, s)
                  | Inr alreadyUsed \<Rightarrow>
                      if (alreadyUsed \<noteq> None \<and> alreadyUsed \<noteq> Some []) \<or> exchangingRef s then (NoOp, s)
                      else
                        (let s1 = s\<lparr>exchangingRef := True\<rparr> in
                         case setItem (sessionStorage s1) usedKey ''1'' of
                           Inl e \<Rightarrow> (Threw e, s1)
                         | Inr st' \<Rightarrow> (Launched code state, s1\<lparr>sessionStorage := st'\<rparr>)))))"

text \<open>
  The async function launched by the effect calls \<open>exchangeCodeForTokens\<close>, which runs
  synchronously up to its \<^verbatim>\<open>fetch\<close>: \<open>landing_sync\<close> is everything that happens before
  the effect returns, \<open>landing_settle\<close> what happens when the answer arrives (the rest
  of the exchange, then \<^verbatim>\<open>exchangingRef.current = false\<close>). The rewriting of the visible
  URL is not part of the state.
\<close>

datatype landing_result = Skipped | Failed js_error | Started "(request \<times> json \<times> string) option"

definition landing_sync :: "config \<Rightarrow> json JSON_api \<Rightarrow> string option \<Rightarrow> string option \<Rightarrow> app \<Rightarrow> landing_result \<times> app" where
  "landing_sync C J code_param state_param s =
     (case landing_guard J code_param state_param s of
        (NoOp, s1) \<Rightarrow> (Skipped, s1)
      | (Threw e, s1) \<Rightarrow> (Failed e, s1)
      | (Launched code state, s1) \<Rightarrow>
          (case exchange_begin C J code state s1 of
             (None, s2) \<Rightarrow> (Started None, s2)
           | (Some (req, clientIdUsed), s2) \<Rightarrow> (Started (Some (req, clientIdUsed, state)), s2)))"

definition landing_settle :: "json JSON_api \<Rightarrow> network \<Rightarrow> landing_result \<Rightarrow> app \<Rightarrow> app" where
  "landing_settle J net r s =
     (case r of
        Started pending \<Rightarrow>
          (let s1 = (case pending of
                       None \<Rightarrow> s
                     | Some (req, clientIdUsed, state) \<Rightarrow> exchange_finish J state clientIdUsed (net req) s)
           in s1\<lparr>exchangingRef := False\<rparr>)
      | _ \<Rightarrow> s)"

definition landing_effect :: "config \<Rightarrow> json JSON_api \<Rightarrow> network \<Rightarrow> string option \<Rightarrow> string option \<Rightarrow> app \<Rightarrow> app" where
  "landing_effect C J net code_param state_param s =
     (case landing_sync C J code_param state_param s of (r, s1) \<Rightarrow> landing_settle J net r s1)"

text \<open>
  Two invocations of the effect with the same URL parameters: the second after the
  first has run to its end, or the second while the first still awaits the token
  endpoint (both effects run before any answer arrives, as under a double mount).
\<close>

definition twice_sequential :: "config \<Rightarrow> json JSON_api \<Rightarrow> network \<Rightarrow> string option \<Rightarrow> string option \<Rightarrow> app \<Rightarrow> app" where
  "twice_sequential C J net code_param state_param s =
     landing_effect C J net code_param state_param (landing_effect C J net code_param state_param s)"

definition twice_overlapped :: "config \<Rightarrow> json JSON_api \<Rightarrow> network \<Rightarrow> string option \<Rightarrow> string option \<Rightarrow> app \<Rightarrow> app" where
  "twice_overlapped C J net code_param state_param s =
     (case landing_sync C J code_param state_param s of
        (r1, a) \<Rightarrow>
          (case landing_sync C J code_param state_param a of
             (r2, b) \<Rightarrow> landing_settle J net r2 (landing_settle J net r1 b)))"

section \<open>fetchVehicles\<close>

text \<open>
  Source: \<^verbatim>\<open>src/api.ts\<close>, lines 43-128. The result is the JSON value returned, the cast
  to \<^verbatim>\<open>Vehicle[]\<close> being unchecked; \<open>Inl\<close> is a rejected promise.
\<close>

definition mockVehicles :: json where
  "mockVehicles = JArr
     [JObj
        [(''vehicleId'', JStr ''VEH-001''), (''make'', JStr ''Toyota''), (''model'', JStr ''Corolla''),
         (''registrationNumber'', JStr ''WP-CA-4521''), (''type'', JStr ''CAR''),
         (''manufactureYear'', JNum 2022), (''estimatedValue'', JNum 4500000), (''currency'', JStr ''LKR''),
         (''insuranceStatus'',
            JObj [(''isInsured'', JBool True), (''policyId'', JStr ''POL-2025-000874''),
                  (''insuredUntil'', JStr ''2025-12-31'')]),
         (''actionsAvailable'',
            JObj [(''canGetQuote'', JBool False), (''canBuyInsurance'', JBool False),
                  (''canViewPolicy'', JBool True)])],
      JObj
        [(''vehicleId'', JStr ''VEH-002''), (''make'', JStr ''Honda''), (''model'', JStr ''Civic''),
         (''registrationNumber'', JStr ''WP-CB-7834''), (''type'', JStr ''CAR''),
         (''manufactureYear'', JNum 2021), (''estimatedValue'', JNum 3800000), (''currency'', JStr ''LKR''),
         (''insuranceStatus'',
            JObj [(''isInsured'', JBool True), (''policyId'', JStr ''POL-2025-000874''),
                  (''insuredUntil'', JStr ''2025-12-31'')]),
         (''actionsAvailable'',
            JObj [(''canGetQuote'', JBool False), (''canBuyInsurance'', JBool False),
                  (''canViewPolicy'', JBool True)])],
      JObj
        [(''vehicleId'', JStr ''VEH-003''), (''make'', JStr ''Toyota''), (''model'', JStr ''Hiace''),
         (''registrationNumber'', JStr ''WP-KA-9912''), (''type'', JStr ''VAN''),
         (''manufactureYear'', JNum 2020), (''estimatedValue'', JNum 5200000), (''currency'', JStr ''LKR''),
         (''insuranceStatus'', JObj [(''isInsured'', JBool False)]),
         (''actionsAvailable'',
            JObj [(''canGetQuote'', JBool True), (''canBuyInsurance'', JBool False),
                  (''canViewPolicy'', JBool False)])]]"

definition Array_isArray :: "json option \<Rightarrow> bool" where
  "Array_isArray v = (case v of Some (JArr xs) \<Rightarrow> True | _ \<Rightarrow> False)"

definition vehicles_request :: "config \<Rightarrow> string \<Rightarrow> request" where
  "vehicles_request C accessToken =
     \<lparr>req_url = GET_VEHICLES_URL C, req_method = ''GET'',
      req_headers = [(''Authorization'', ''Bearer '' @ accessToken), (''Accept'', ''application/json'')],
      req_body = NoBody\<rparr>"

definition fetchVehicles :: "config \<Rightarrow> network \<Rightarrow> string \<Rightarrow> js_error + json" where
  "fetchVehicles C net accessToken =
     (case net (vehicles_request C accessToken) of
        Rejected e \<Rightarrow> Inl e
      | Resolved res \<Rightarrow>
          if status res = 204 then Inr mockVehicles
          else if \<not> ok res then Inr mockVehicles
          else
            (case body_json res of
               None \<Rightarrow> Inr mockVehicles
             | Some data \<Rightarrow>
                 if \<not> truthy data then Inr mockVehicles
                 else if Array_isArray (Some data) then Inr data
                 else
                   (case member data ''vehicles'' of
                      Some (JArr vehicles) \<Rightarrow> Inr (JArr vehicles)
                    | _ \<Rightarrow>
                        (case member data ''list'' of
                           Some (JArr list) \<Rightarrow> Inr (JArr list)
                         | _ \<Rightarrow> Inr mockVehicles))))"

section \<open>The step-up (email OTP) flow\<close>

text \<open>
  Source: \<^verbatim>\<open>src/ui/InsuranceDemoApp.tsx\<close>, lines 195-232 (\<open>startEmailOtp\<close>) and 234-402
  (\<open>submitOtp\<close>); the same handlers stand in \<^verbatim>\<open>src/ui/ChatPanel.tsx\<close>, lines 679-860.
\<close>

definition truthy_opt :: "json option \<Rightarrow> bool" where
  "truthy_opt v = (case v of None \<Rightarrow> False | Some j \<Rightarrow> truthy j)"

text \<open>
  The flow identifier, probed the same way by both handlers, and the authenticator
  identifier, which \<open>startEmailOtp\<close> and \<open>submitOtp\<close> probe in different orders.
\<close>

definition flowId_of :: "json \<Rightarrow> json" where
  "flowId_of res =
     first_truthy
       [opt_member (Some res) ''flowId'',
        opt_member (Some res) ''flowID'',
        opt_member (Some res) ''sessionDataKey'',
        opt_member (Some res) ''sessionDataKeyConsent'',
        opt_member (Some res) ''sessionState'']
       JNull"

definition startEmailOtp_authenticatorId :: "json \<Rightarrow> json" where
  "startEmailOtp_authenticatorId res =
     first_truthy
       [opt_member (opt_first (opt_member (opt_member (Some res) ''nextStep'') ''authenticators'')) ''authenticatorId'',
        opt_member (Some res) ''authenticatorId'',
        opt_member (opt_first (opt_member (Some res) ''authenticators'')) ''authenticatorId'',
        opt_member (opt_first (opt_member (Some res) ''authenticators'')) ''id'',
        opt_member (opt_first (opt_member (opt_member (Some res) ''authenticate'') ''authenticators'')) ''id'',
        opt_member (opt_first (opt_member (opt_member (Some res) ''stepInfo'') ''options'')) ''authenticatorId'',
        opt_member (opt_first (opt_member (opt_member (Some res) ''stepInfo'') ''options'')) ''id'']
       JNull"

definition submitOtp_authenticatorId :: "json \<Rightarrow> json" where
  "submitOtp_authenticatorId response =
     first_truthy
       [opt_member (Some response) ''authenticatorId'',
        opt_member (opt_first (opt_member (opt_member (Some response) ''nextStep'') ''authenticators'')) ''authenticatorId'',
        opt_member (opt_first (opt_member (Some response) ''authenticators'')) ''authenticatorId'',
        opt_member (opt_first (opt_member (Some response) ''authenticators'')) ''id'',
        opt_member (opt_first (opt_member (opt_member (Some response) ''authenticate'') ''authenticators'')) ''id'',
        opt_member (opt_first (opt_member (opt_member (Some response) ''stepInfo'') ''options'')) ''authenticatorId'',
        opt_member (opt_first (opt_member (opt_member (Some response) ''stepInfo'') ''options'')) ''id'']
       JNull"

text \<open>
  \<^verbatim>\<open>/authn/i.test(x)\<close>: the string of \<open>x\<close> contains \<^verbatim>\<open>authn\<close>, whatever the case of its
  letters.
\<close>

definition to_lower :: "char \<Rightarrow> char" where
  "to_lower c =
     (if 65 \<le> (of_char c :: nat) \<and> (of_char c :: nat) \<le> 90 then char_of ((of_char c :: nat) + 32) else c)"

fun has_infix :: "string \<Rightarrow> string \<Rightarrow> bool" where
  "has_infix pat [] = (pat = [])"
| "has_infix pat (c # cs) = (take (length pat) (c # cs) = pat \<or> has_infix pat cs)"

definition test_authn :: "json option \<Rightarrow> bool" where
  "test_authn v = has_infix ''authn'' (map to_lower (js_String_opt v))"

text \<open>
  \<^verbatim>\<open>res?.links?.find?.((l) => /authn/i.test(l?.href))?.href\<close>. On an array \<^verbatim>\<open>find\<close> is the
  array method. On an object it is the member of that name: \<^verbatim>\<open>?.(\<close> skips the call when
  it is \<^verbatim>\<open>null\<close> or absent and throws a TypeError when it is anything else, a JSON value
  being no function. Strings, numbers and booleans have no \<^verbatim>\<open>find\<close>.
\<close>

definition links_find_href :: "json option \<Rightarrow> js_error + json option" where
  "links_find_href links =
     (case links of
        Some (JArr ls) \<Rightarrow>
          (case filter (\<lambda>l. test_authn (opt_member (Some l) ''href'')) ls of
             [] \<Rightarrow> Inr None
           | l # rest \<Rightarrow> Inr (opt_member (Some l) ''href''))
      | Some (JObj kvs) \<Rightarrow>
          (case map_of (rev kvs) ''find'' of
             None \<Rightarrow> Inr None
           | Some JNull \<Rightarrow> Inr None
           | Some f \<Rightarrow> Inl (TypeError ''res?.links?.find is not a function''))
      | _ \<Rightarrow> Inr None)"

text \<open>
  \<^verbatim>\<open>res?.links?.[0]?.href || res?.links?.find?.(...)?.href || null\<close>; the second operand is
  evaluated only when the first is falsy.
\<close>

definition authnHref_of :: "json \<Rightarrow> js_error + json" where
  "authnHref_of res =
     (let links = opt_member (Some res) ''links'';
          first_href = opt_member (opt_first links) ''href''
      in case first_href of
           Some h \<Rightarrow>
             if truthy h then Inr h
             else (case links_find_href links of
                     Inl e \<Rightarrow> Inl e
                   | Inr found \<Rightarrow> Inr (first_truthy [found] JNull))
         | None \<Rightarrow>
             (case links_find_href links of
                Inl e \<Rightarrow> Inl e
              | Inr found \<Rightarrow> Inr (first_truthy [found] JNull)))"

text \<open>
  \<^verbatim>\<open>{ ...res, flowId, authenticatorId, authnHref }\<close>: the own members of \<open>res\<close> (the
  indexed elements of an array or string, nothing for the other values), then the three
  members, assigned in this order: a member of \<open>res\<close> of one of these names keeps its
  place and takes the new value.
\<close>

definition spread :: "json \<Rightarrow> (string \<times> json) list" where
  "spread v =
     (case v of
        JObj kvs \<Rightarrow> kvs
      | JArr xs \<Rightarrow> zip (map string_of_nat [0..<length xs]) xs
      | JStr s \<Rightarrow> zip (map string_of_nat [0..<length s]) (map (\<lambda>c. JStr [c]) s)
      | _ \<Rightarrow> [])"

definition normalized_response :: "json \<Rightarrow> json \<Rightarrow> json \<Rightarrow> json \<Rightarrow> json" where
  "normalized_response res flowId authenticatorId authnHref =
     JObj (assign_members (spread res)
             [(''flowId'', flowId), (''authenticatorId'', authenticatorId), (''authnHref'', authnHref)])"

text \<open>
  \<open>startEmailOtp\<close>. \<open>flow\<close> is the outcome of \<^verbatim>\<open>await emailOtpFlow(clientId)\<close>: the JSON body
  of the step-up authorization response, or what \<^verbatim>\<open>emailOtpFlow\<close> threw.
\<close>

definition startEmailOtp :: "js_error + json \<Rightarrow> app \<Rightarrow> app" where
  "startEmailOtp flow s =
     (let s0 = s\<lparr>otpError := None, otpResponse := JNull, otpRequesting := True\<rparr> in
      case flow of
        Inl e \<Rightarrow> s0\<lparr>otpError := Some (message_or_String e), otpVisible := False, otpRequesting := False\<rparr>
      | Inr res \<Rightarrow>
          (let flowId = flowId_of res;
               authenticatorId = startEmailOtp_authenticatorId res
           in case authnHref_of res of
                Inl e \<Rightarrow>
                  s0\<lparr>otpError := Some (message_or_String e), otpVisible := False, otpRequesting := False\<rparr>
              | Inr authnHref \<Rightarrow>
                  s0\<lparr>otpResponse := normalized_response res flowId authenticatorId authnHref,
                     otpVisible := True, otpRequesting := False\<rparr>))"

text \<open>
  \<^verbatim>\<open>await fetch(...)\<close>: the request is logged and answered by the network.
\<close>

definition fetch :: "network \<Rightarrow> request \<Rightarrow> app \<Rightarrow> fetch_result \<times> app" where
  "fetch net req s = (net req, s\<lparr>net_log := net_log s @ [req]\<rparr>)"

text \<open>
  \<^verbatim>\<open>await res.json().catch(() => null)\<close>
\<close>

definition json_or_null :: "response \<Rightarrow> json" where
  "json_or_null res = (case body_json res of None \<Rightarrow> JNull | Some j \<Rightarrow> j)"

text \<open>
  The OTP submission (lines 262-280).
\<close>

definition authn_request :: "json \<Rightarrow> json \<Rightarrow> json \<Rightarrow> string \<Rightarrow> request" where
  "authn_request response flowId authenticatorId otp =
     \<lparr>req_url = js_String (first_truthy [opt_member (Some response) ''authnHref'']
                    (JStr ''https://localhost:9444/oauth2/authn'')),
      req_method = ''POST'',
      req_headers = [(''Accept'', ''application/json''), (''Content-Type'', ''application/json'')],
      req_body = Text (JSON_stringify
        (JObj [(''flowId'', JStr (js_String flowId)),
               (''selectedAuthenticator'',
                  JObj [(''authenticatorId'', JStr (js_String authenticatorId)),
                        (''params'', JObj [(''OTPCode'', JStr otp)])])]))\<rparr>"

text \<open>
  The exchange of the embedded authorization code (lines 291-319): the request, and
  the inner \<^verbatim>\<open>try\<close>, whose \<^verbatim>\<open>catch\<close> rethrows with the prefix \<^verbatim>\<open>Post-OTP token exchange error: \<close>.
  The result is the exception thrown, if any, and the state.
\<close>

definition stepup_token_request :: "config \<Rightarrow> json option \<Rightarrow> request" where
  "stepup_token_request C authCode =
     \<lparr>req_url = TOKEN_ENDPOINT C, req_method = ''POST'',
      req_headers = [(''Content-Type'', ''application/x-www-form-urlencoded'')],
      req_body = Form
        [(''grant_type'', ''authorization_code''),
         (''code'', js_String_opt authCode),
         (''redirect_uri'', REDIRECT_URI C),
         (''client_id'', CLIENT_ID2 C)]\<rparr>"

definition stepup_exchange :: "config \<Rightarrow> json JSON_api \<Rightarrow> network \<Rightarrow> json option \<Rightarrow> app \<Rightarrow> js_error option \<times> app" where
  "stepup_exchange C J net authCode s =
     (case fetch net (stepup_token_request C authCode) s of
        (Rejected e, s1) \<Rightarrow>
          (Some (Error (''Post-OTP token exchange error: '' @ message_or_String e)), s1)
      | (Resolved tokenRes, s1) \<Rightarrow>
          if \<not> ok tokenRes then
            (Some (Error (''Post-OTP token exchange error: '' @ ''Token exchange (CLIENT_ID2) failed (''
                     @ string_of_nat (status tokenRes) @ ''). '' @ body_text tokenRes)), s1)
          else
            (let tokenJson = json_or_null tokenRes in
             if \<not> truthy tokenJson then
               (Some (Error (''Post-OTP token exchange error: '' @ ''Token response (CLIENT_ID2) not JSON.'')), s1)
             else
               (let tokenJson' = set_client_id tokenJson (JStr (CLIENT_ID2 C))
                in (None, s1\<lparr>tokens := tokenJson',
                              sessionStorage := saveSession J (sessionStorage s1) ''tokens'' tokenJson'\<rparr>))))"

text \<open>
  The purchase (lines 321-395). \<^verbatim>\<open>tokens\<close>, \<^verbatim>\<open>selectedVehicle\<close> and \<^verbatim>\<open>quote\<close> are the
  constants of the render that created the handler, the fields of \<open>closure\<close>: the
  \<^verbatim>\<open>setTokens\<close> of the exchange just above does not change them. The update of the
  vehicle list (\<^verbatim>\<open>setVehicles\<close>) and the timer that hides the success message are display
  state outside the record.
\<close>

definition bearerToken_of :: "json \<Rightarrow> js_error + json" where
  "bearerToken_of tokens_now =
     (if tokens_now = JNull then Inl (TypeError ''Cannot read properties of null (reading 'access_token')'')
      else Inr (first_truthy
            [member tokens_now ''access_token'', member tokens_now ''accessToken'',
             member tokens_now ''token'', member tokens_now ''id_token'']
            (case tokens_now of JStr t \<Rightarrow> JStr t | _ \<Rightarrow> JNull)))"

definition buy_request :: "config \<Rightarrow> json \<Rightarrow> json \<Rightarrow> json \<Rightarrow> request" where
  "buy_request C vehicle q bearerToken =
     \<lparr>req_url = BUY_INSURANCE_URL C @ ''?vehicleId='' @ js_String_opt (member vehicle ''vehicleId'')
                  @ ''&quoteId='' @ js_String_opt (member q ''id''),
      req_method = ''POST'',
      req_headers = [(''Accept'', ''*/*''), (''Authorization'', ''Bearer '' @ js_String bearerToken)],
      req_body = NoBody\<rparr>"

definition optional_field :: "string \<Rightarrow> json option \<Rightarrow> (string \<times> json) list" where
  "optional_field name v = (case v of None \<Rightarrow> [] | Some j \<Rightarrow> [(name, j)])"

definition updatedVehicle_of :: "json \<Rightarrow> json \<Rightarrow> json" where
  "updatedVehicle_of vehicle policyResponse =
     JObj (assign_members (spread vehicle)
       [(''insuranceStatus'',
           JObj ([(''isInsured'', JBool True)]
                 @ optional_field ''policyId''
                     (case member policyResponse ''policyNumber'' of
                        Some n \<Rightarrow> if truthy n then Some n else member policyResponse ''id''
                      | None \<Rightarrow> member policyResponse ''id'')
                 @ optional_field ''insuredUntil'' (member policyResponse ''endDate''))),
        (''actionsAvailable'',
           JObj (assign_members
                   (case member vehicle ''actionsAvailable'' of None \<Rightarrow> [] | Some a \<Rightarrow> spread a)
                   [(''canGetQuote'', JBool False), (''canViewPolicy'', JBool True)]))])"

definition buy_insurance :: "config \<Rightarrow> network \<Rightarrow> app \<Rightarrow> app \<Rightarrow> js_error option \<times> app" where
  "buy_insurance C net closure s =
     (case bearerToken_of (tokens closure) of
        Inl e \<Rightarrow> (Some e, s)
      | Inr bearerToken \<Rightarrow>
          if \<not> truthy bearerToken then (None, s\<lparr>error := ''Missing bearer token in stored tokens.''\<rparr>)
          else if \<not> truthy (selectedVehicle closure) \<or> \<not> truthy (quote closure)
            then (None, s\<lparr>error := ''Missing vehicle or quote information''\<rparr>)
          else
            (case fetch net (buy_request C (selectedVehicle closure) (quote closure) bearerToken) s of
               (Rejected e, s1) \<Rightarrow> (Some e, s1)
             | (Resolved res1, s1) \<Rightarrow>
                 if \<not> ok res1 then
                   (Some (Error (''Insurance purchase failed ('' @ string_of_nat (status res1) @ ''). ''
                            @ body_text res1)), s1)
                 else
                   (let policyResponse = json_or_null res1 in
                    if \<not> truthy policyResponse then (Some (Error ''Policy response was not JSON''), s1)
                    else
                      (None, s1\<lparr>selectedVehicle := updatedVehicle_of (selectedVehicle closure) policyResponse,
                                 purchaseSuccess := True, quote := JNull,
                                 otpVisible := False, otpValue := []\<rparr>))))"

text \<open>
  The body of the \<^verbatim>\<open>try\<close> of \<open>submitOtp\<close> (lines 262-395), then \<open>submitOtp\<close> with its
  guards, its \<^verbatim>\<open>catch\<close> and its \<^verbatim>\<open>finally\<close>.
\<close>

definition submitOtp_try :: "config \<Rightarrow> json JSON_api \<Rightarrow> network \<Rightarrow> app \<Rightarrow> json \<Rightarrow> json \<Rightarrow> app \<Rightarrow> js_error option \<times> app" where
  "submitOtp_try C J net closure flowId authenticatorId s =
     (case fetch net (authn_request (otpResponse closure) flowId authenticatorId (otpValue closure)) s of
        (Rejected e, s1) \<Rightarrow> (Some e, s1)
      | (Resolved res, s1) \<Rightarrow>
          (let json = json_or_null res in
           if \<not> ok res then
             (Some (Error (''OTP verify failed ('' @ string_of_nat (status res) @ ''). ''
                      @ (if truthy json then JSON_stringify json else []))), s1)
           else
             (let s2 = s1\<lparr>otpResponse := json\<rparr>;
                  authCode = opt_member (opt_member (Some json) ''authData'') ''code''
              in if opt_member (Some json) ''flowStatus'' = Some (JStr ''SUCCESS_COMPLETED'') \<and> truthy_opt authCode
                 then
                   (case stepup_exchange C J net authCode s2 of
                      (Some e, s3) \<Rightarrow> (Some e, s3)
                    | (None, s3) \<Rightarrow> buy_insurance C net closure (s3\<lparr>otpVisible := False, otpValue := []\<rparr>))
                 else buy_insurance C net closure (s2\<lparr>otpVisible := False, otpValue := []\<rparr>))))"

definition submitOtp :: "config \<Rightarrow> json JSON_api \<Rightarrow> network \<Rightarrow> app \<Rightarrow> app" where
  "submitOtp C J net s =
     (let s0 = s\<lparr>otpError := None\<rparr> in
      if otpValue s = [] then s0\<lparr>otpError := Some ''Enter OTP''\<rparr>
      else if \<not> truthy (otpResponse s) then s0\<lparr>otpError := Some ''Missing authorize response (no flow data)''\<rparr>
      else
        (let flowId = flowId_of (otpResponse s);
             authenticatorId = submitOtp_authenticatorId (otpResponse s)
         in if \<not> truthy flowId then s0\<lparr>otpError := Some ''Unable to locate flowId in authorize response''\<rparr>
            else if \<not> truthy authenticatorId
              then s0\<lparr>otpError := Some ''Unable to locate authenticatorId in authorize response''\<rparr>
            else
              (case submitOtp_try C J net s flowId authenticatorId (s0\<lparr>otpRequesting := True\<rparr>) of
                 (Some e, s1) \<Rightarrow> s1\<lparr>otpError := Some (message_or_String e), otpRequesting := False\<rparr>
               | (None, s1) \<Rightarrow> s1\<lparr>otpRequesting := False\<rparr>)))"

section \<open>Concrete states, stores and responses\<close>


text \<open>A storage with room left.\<close>

definition roomy_storage :: session_storage where
  "roomy_storage = \<lparr>items = [(''other'', ''1'')], quota = 1000, access_denied = False\<rparr>"

text \<open>
  A configuration, the storage as \<open>startLogin\<close> leaves it for the state \<^verbatim>\<open>st8\<close> (pending
  state, verifier and client id saved with \<open>saveSession\<close>), the storage after that login
  has completed (the verifier and the client id are gone, the pending state is still
  there), a signed-out component, and two answers of the token endpoint.
\<close>

definition example_config :: config where
  "example_config =
     \<lparr>CLIENT_ID = ''client-1'', CLIENT_ID2 = ''client-2'', TOKEN_ENDPOINT = ''https://idp/token'',
      REDIRECT_URI = ''https://app/'', BUY_INSURANCE_URL = ''https://api/buy'',
      GET_VEHICLES_URL = ''https://api/vehicles''\<rparr>"

definition pending_store :: session_storage where
  "pending_store =
     \<lparr>items =
        [(''pkce_state'', JSON_stringify (JStr ''st8'')),
         (''pkce_verifier:st8'', JSON_stringify (JStr ''ver'')),
         (''pkce_client:st8'', JSON_stringify (JStr ''client-1''))],
      quota = 1000, access_denied = False\<rparr>"

definition signed_out :: "session_storage \<Rightarrow> app" where
  "signed_out st =
     \<lparr>error = [], tokens = JNull, otpVisible = False, otpValue = [], otpRequesting = False,
      otpError = None, otpResponse = JNull, purchaseSuccess = False, selectedVehicle = JNull,
      quote = JNull, exchangingRef = False, sessionStorage = st, net_log = []\<rparr>"

definition token_endpoint_answers :: "response \<Rightarrow> network" where
  "token_endpoint_answers res = (\<lambda>req. Resolved res)"

definition invalid_grant :: response where
  "invalid_grant =
     \<lparr>status = 400, body_text = JSON_stringify (JObj [(''error'', JStr ''invalid_grant'')]),
      body_json = Some (JObj [(''error'', JStr ''invalid_grant'')])\<rparr>"

definition token_issued :: response where
  "token_issued =
     \<lparr>status = 200, body_text = JSON_stringify (JObj [(''access_token'', JStr ''at-1'')]),
      body_json = Some (JObj [(''access_token'', JStr ''at-1'')])\<rparr>"

definition spent_store :: session_storage where
  "spent_store =
     \<lparr>items = [(''pkce_state'', JSON_stringify (JStr ''st8''))], quota = 1000, access_denied = False\<rparr>"

text \<open>Answers of the vehicles endpoint, for the concrete instances.\<close>

definition backend_down :: response where
  "backend_down = \<lparr>status = 500, body_text = ''Internal Server Error'', body_json = None\<rparr>"

definition no_content :: response where
  "no_content = \<lparr>status = 204, body_text = [], body_json = None\<rparr>"

definition html_page :: response where
  "html_page = \<lparr>status = 200, body_text = ''<html></html>'', body_json = None\<rparr>"

definition other_shape :: response where
  "other_shape =
     \<lparr>status = 200, body_text = JSON_stringify (JObj [(''vehicles'', JNum 3)]),
      body_json = Some (JObj [(''vehicles'', JNum 3)])\<rparr>"

definition owns_the_mock_vehicles :: response where
  "owns_the_mock_vehicles =
     \<lparr>status = 200, body_text = JSON_stringify mockVehicles, body_json = Some mockVehicles\<rparr>"

text \<open>
  A component waiting for the OTP of a purchase, signed in with the access token
  \<^verbatim>\<open>at-0\<close>, and a network that answers the OTP submission, the token request and the
  purchase.
\<close>

definition answers :: "response \<Rightarrow> response \<Rightarrow> response \<Rightarrow> network" where
  "answers authn token buy req =
     (case req_body req of
        Text t \<Rightarrow> Resolved authn
      | Form params \<Rightarrow> Resolved token
      | NoBody \<Rightarrow> Resolved buy)"

definition otp_completed :: response where
  "otp_completed =
     \<lparr>status = 200, body_text = [],
      body_json = Some (JObj [(''flowStatus'', JStr ''SUCCESS_COMPLETED''),
                              (''authData'', JObj [(''code'', JStr ''c-2'')])])\<rparr>"

definition otp_completed_without_code :: response where
  "otp_completed_without_code =
     \<lparr>status = 200, body_text = [],
      body_json = Some (JObj [(''flowStatus'', JStr ''SUCCESS_COMPLETED'')])\<rparr>"

definition policy_issued :: response where
  "policy_issued =
     \<lparr>status = 200, body_text = [],
      body_json = Some (JObj [(''policyNumber'', JStr ''P-1''), (''endDate'', JStr ''2026-12-31'')])\<rparr>"

definition awaiting_otp :: app where
  "awaiting_otp =
     \<lparr>error = [], tokens = JObj [(''access_token'', JStr ''at-0''), (''_client_id'', JStr ''client-1'')],
      otpVisible = True, otpValue = ''123456'', otpRequesting = False, otpError = None,
      otpResponse = JObj [(''flowId'', JStr ''f-1''), (''authenticatorId'', JStr ''a-1''),
                          (''authnHref'', JNull)],
      purchaseSuccess = False,
      selectedVehicle = JObj [(''vehicleId'', JStr ''VEH-003'')],
      quote = JObj [(''id'', JStr ''Q-1'')],
      exchangingRef = False, sessionStorage = roomy_storage, net_log = []\<rparr>"

chapter \<open>Properties\<close>

section \<open>base64UrlEncode refines the unpadded base64url encoding: claim C8\<close>

lemma of_char_lt_256: "(of_char c :: nat) < 256"
proof -
  have "(of_char c :: nat) mod 256 < 256" by simp
  then show ?thesis by (simp only: of_char_mod_256)
qed

lemma unat_u8_lt_256: "unat (b :: u8) < 256"
  using unsigned_less [of b, where 'a=nat] by simp

lemma unat_u8_mod_256: "unat (b :: u8) mod 256 = unat b"
  using unat_u8_lt_256 [of b] by simp

lemma length_b64_alphabet: "length b64_alphabet = 64"
  by (simp add: b64_alphabet_def)

lemma length_b64url_alphabet: "length b64url_alphabet = 64"
  by (simp add: b64url_alphabet_def)

lemma map_url_safe_alphabet: "map url_safe b64_alphabet = b64url_alphabet"
  by (simp add: b64_alphabet_def b64url_alphabet_def url_safe_def)

lemma url_safe_digit: "i < 64 \<Longrightarrow> url_safe (b64_digit i) = b64url_digit i"
proof -
  assume i: "i < 64"
  have "map url_safe b64_alphabet ! i = url_safe (b64_alphabet ! i)"
    using i by (simp add: length_b64_alphabet)
  then show ?thesis
    by (simp add: map_url_safe_alphabet b64_digit_def b64url_digit_def)
qed

lemma b64url_digit_plain:
  assumes "i < 64"
  shows "b64url_digit i \<noteq> CHR ''=''" "b64url_digit i \<noteq> CHR ''+''" "b64url_digit i \<noteq> CHR ''/''"
proof -
  have "b64url_digit i \<in> set b64url_alphabet"
    using assms by (simp add: b64url_digit_def length_b64url_alphabet)
  then show "b64url_digit i \<noteq> CHR ''=''" "b64url_digit i \<noteq> CHR ''+''" "b64url_digit i \<noteq> CHR ''/''"
    by (auto simp: b64url_alphabet_def)
qed

lemma replace_all_url_safe:
  "replace_all (CHR ''/'') (CHR ''_'') (replace_all (CHR ''+'') (CHR ''-'') s) = map url_safe s"
  by (simp add: replace_all_def url_safe_def)

lemma url_safe_eq_sign: "url_safe (CHR ''='') = CHR ''=''"
  by (simp add: url_safe_def)

lemma strip_trailing_eq_pad:
  assumes "CHR ''='' \<notin> set xs"
  shows "strip_trailing_eq (xs @ replicate k (CHR ''='')) = xs"
proof -
  have "dropWhile (\<lambda>c. c = CHR ''='') (replicate k (CHR ''='') @ rev xs)
        = dropWhile (\<lambda>c. c = CHR ''='') (rev xs)"
    by (rule dropWhile_append2) simp
  also have "\<dots> = rev xs"
    using assms by (cases "rev xs") (auto simp: rev_swap [symmetric] dest: arg_cong [where f = set])
  finally show ?thesis
    by (simp add: strip_trailing_eq_def)
qed

lemma sextet_bounds:
  fixes a b c :: nat
  assumes "a < 256" "b < 256" "c < 256"
  shows "a div 4 < 64" "(a mod 4) * 16 < 64" "(a mod 4) * 16 + b div 16 < 64"
    "(b mod 16) * 4 < 64" "(b mod 16) * 4 + c div 64 < 64" "c mod 64 < 64"
  using assms by auto

lemma btoa_url_safe:
  "\<exists>k. map url_safe (btoa (String_fromCharCode bs)) = base64url_nopad bs @ replicate k (CHR ''='')"
proof (induction bs rule: base64url_nopad.induct)
  case 1
  show ?case by (simp add: String_fromCharCode_def)
next
  case (2 a)
  have "map url_safe (btoa (String_fromCharCode [a])) = base64url_nopad [a] @ replicate 2 (CHR ''='')"
    using sextet_bounds [OF unat_u8_lt_256 [of a] unat_u8_lt_256 [of a] unat_u8_lt_256 [of a]]
    by (simp add: String_fromCharCode_def unat_u8_mod_256 url_safe_digit url_safe_eq_sign
        numeral_2_eq_2)
  then show ?case by blast
next
  case (3 a b)
  have "map url_safe (btoa (String_fromCharCode [a, b])) = base64url_nopad [a, b] @ replicate 1 (CHR ''='')"
    using sextet_bounds [OF unat_u8_lt_256 [of a] unat_u8_lt_256 [of b] unat_u8_lt_256 [of b]]
    by (simp add: String_fromCharCode_def unat_u8_mod_256 url_safe_digit url_safe_eq_sign)
  then show ?case by blast
next
  case (4 a b c rest)
  then obtain k where k: "map url_safe (btoa (String_fromCharCode rest)) = base64url_nopad rest @ replicate k (CHR ''='')"
    by blast
  have "map url_safe (btoa (String_fromCharCode (a # b # c # rest)))
        = base64url_nopad (a # b # c # rest) @ replicate k (CHR ''='')"
    using sextet_bounds [OF unat_u8_lt_256 [of a] unat_u8_lt_256 [of b] unat_u8_lt_256 [of c]] k
    by (simp add: String_fromCharCode_def unat_u8_mod_256 url_safe_digit)
  then show ?case by blast
qed

lemma base64url_nopad_plain:
  "c \<in> set (base64url_nopad bs) \<Longrightarrow> c \<noteq> CHR ''='' \<and> c \<noteq> CHR ''+'' \<and> c \<noteq> CHR ''/''"
proof (induction bs rule: base64url_nopad.induct)
  case 1
  then show ?case by simp
next
  case (2 a)
  then show ?case
    using sextet_bounds [OF unat_u8_lt_256 [of a] unat_u8_lt_256 [of a] unat_u8_lt_256 [of a]]
    by (auto simp: b64url_digit_plain)
next
  case (3 a b)
  then show ?case
    using sextet_bounds [OF unat_u8_lt_256 [of a] unat_u8_lt_256 [of b] unat_u8_lt_256 [of b]]
    by (auto simp: b64url_digit_plain)
next
  case (4 a b c rest)
  then show ?case
    using sextet_bounds [OF unat_u8_lt_256 [of a] unat_u8_lt_256 [of b] unat_u8_lt_256 [of c]]
    by (auto simp: b64url_digit_plain)
qed

lemma base64UrlEncode_eq: "base64UrlEncode bs = base64url_nopad bs"
proof -
  obtain k where "map url_safe (btoa (String_fromCharCode bs)) = base64url_nopad bs @ replicate k (CHR ''='')"
    using btoa_url_safe by blast
  moreover have "CHR ''='' \<notin> set (base64url_nopad bs)"
    using base64url_nopad_plain by blast
  ultimately show ?thesis
    by (simp add: base64UrlEncode_def replace_all_url_safe strip_trailing_eq_pad)
qed

text \<open>
  Claim C8. For every verifier (the bound 43 on its length is not needed), the challenge
  that \<open>sha256\<close> computes is the unpadded base64url encoding of the digest of the
  verifier's UTF-8 bytes, as the specification words it, and it contains none of the
  characters \<^verbatim>\<open>+\<close>, \<^verbatim>\<open>/\<close> and \<^verbatim>\<open>=\<close>. The model is a HOL function of the verifier and
  of the platform's digest function, hence deterministic.
\<close>

theorem sha256_is_unpadded_base64url_of_digest:
  "sha256 digest verifier = challengeFor_spec digest verifier
   \<and> CHR ''+'' \<notin> set (sha256 digest verifier)
   \<and> CHR ''/'' \<notin> set (sha256 digest verifier)
   \<and> CHR ''='' \<notin> set (sha256 digest verifier)"
  using base64url_nopad_plain [of _ "digest (TextEncoder_encode verifier)"]
  by (auto simp: sha256_def challengeFor_spec_def base64UrlEncode_eq)

section \<open>parse_text inverts JSON_stringify\<close>

subsection \<open>Numbers\<close>

lemma digit_val_digit_char: "d < 10 \<Longrightarrow> digit_val (digit_char d) = d"
  by (simp add: digit_val_def digit_char_def)

lemma is_digit_digit_char: "d < 10 \<Longrightarrow> is_digit (digit_char d)"
  by (simp add: is_digit_def digit_char_def)

lemma digit_char_zero_iff: "d < 10 \<Longrightarrow> digit_char d = CHR ''0'' \<longleftrightarrow> d = 0"
proof -
  assume d: "d < 10"
  have "digit_char d = CHR ''0'' \<longleftrightarrow> (of_char (digit_char d) :: nat) = of_char (CHR ''0'')"
    by (simp only: of_char_eq_iff)
  also have "\<dots> \<longleftrightarrow> d = 0"
    using d by (simp add: digit_char_def)
  finally show ?thesis .
qed

lemma string_of_nat_nonempty: "string_of_nat n \<noteq> []"
  by (subst string_of_nat.simps) simp

lemma string_of_nat_digits: "list_all is_digit (string_of_nat n)"
proof (induction n rule: string_of_nat.induct)
  case (1 n)
  show ?case
  proof (cases "n < 10")
    case True
    then show ?thesis
      by (subst string_of_nat.simps) (simp add: is_digit_digit_char)
  next
    case False
    then show ?thesis
      using "1.IH" by (subst string_of_nat.simps) (simp add: is_digit_digit_char)
  qed
qed

lemma nat_of_digits_snoc: "nat_of_digits (ds @ [c]) = 10 * nat_of_digits ds + digit_val c"
  by (simp add: nat_of_digits_def)

lemma nat_of_digits_string_of_nat: "nat_of_digits (string_of_nat n) = n"
proof (induction n rule: string_of_nat.induct)
  case (1 n)
  show ?case
  proof (cases "n < 10")
    case True
    then show ?thesis
      by (subst string_of_nat.simps) (simp add: nat_of_digits_def digit_val_digit_char)
  next
    case False
    then show ?thesis
      using "1.IH" by (subst string_of_nat.simps) (simp add: nat_of_digits_snoc digit_val_digit_char)
  qed
qed

lemma string_of_nat_hd: "0 < n \<Longrightarrow> hd (string_of_nat n) \<noteq> CHR ''0''"
proof (induction n rule: string_of_nat.induct)
  case (1 n)
  show ?case
  proof (cases "n < 10")
    case True
    then show ?thesis
      using "1.prems" by (subst string_of_nat.simps) (simp add: digit_char_zero_iff)
  next
    case False
    then have "0 < n div 10" by simp
    then have "hd (string_of_nat (n div 10)) \<noteq> CHR ''0''"
      using "1.IH" False by simp
    then show ?thesis
      using False by (subst string_of_nat.simps) (simp add: string_of_nat_nonempty)
  qed
qed

lemma string_of_nat_no_leading_zero:
  "\<not> (hd (string_of_nat n) = CHR ''0'' \<and> 1 < length (string_of_nat n))"
proof (cases "n = 0")
  case True
  then show ?thesis by (subst (2) string_of_nat.simps) simp
next
  case False
  then show ?thesis using string_of_nat_hd [of n] by simp
qed

lemma takeWhile_digits_append:
  assumes "list_all is_digit ds" "rest = [] \<or> \<not> is_digit (hd rest)"
  shows "takeWhile is_digit (ds @ rest) = ds" "dropWhile is_digit (ds @ rest) = rest"
proof -
  have a: "\<And>x. x \<in> set ds \<Longrightarrow> is_digit x"
    using assms(1) by (simp add: list_all_iff)
  have "takeWhile is_digit rest = []" "dropWhile is_digit rest = rest"
    using assms(2) by (cases rest; simp)+
  then show "takeWhile is_digit (ds @ rest) = ds" "dropWhile is_digit (ds @ rest) = rest"
    using a by (simp_all add: takeWhile_append2 dropWhile_append2)
qed

lemma hd_string_of_nat_digit: "is_digit (hd (string_of_nat n))"
  using string_of_nat_digits [of n] string_of_nat_nonempty [of n]
  by (cases "string_of_nat n") simp_all

lemma minus_not_digit: "\<not> is_digit (CHR ''-'')"
  by (simp add: is_digit_def)

lemma parse_number_string_of_int:
  assumes "delimited rest"
  shows "parse_number (string_of_int i @ rest) = Some (i, rest)"
proof -
  from assms have r: "rest = [] \<or> \<not> is_digit (hd rest)"
    and r': "\<not> (rest \<noteq> [] \<and> (hd rest = CHR ''.'' \<or> hd rest = CHR ''e'' \<or> hd rest = CHR ''E''))"
    by (auto simp: delimited_def)
  show ?thesis
  proof (cases "i < 0")
    case True
    let ?ds = "string_of_nat (nat (- i))"
    have "takeWhile is_digit (?ds @ rest) = ?ds" "dropWhile is_digit (?ds @ rest) = rest"
      using takeWhile_digits_append [OF string_of_nat_digits r] by blast+
    then show ?thesis
      using True r' string_of_nat_no_leading_zero [of "nat (- i)"]
      by (simp add: parse_number_def string_of_int_def string_of_nat_nonempty
          nat_of_digits_string_of_nat Let_def)
  next
    case False
    let ?ds = "string_of_nat (nat i)"
    have h: "hd (?ds @ rest) \<noteq> CHR ''-''"
      using hd_string_of_nat_digit [of "nat i"] minus_not_digit
      by (auto simp: string_of_nat_nonempty)
    have "takeWhile is_digit (?ds @ rest) = ?ds" "dropWhile is_digit (?ds @ rest) = rest"
      using takeWhile_digits_append [OF string_of_nat_digits r] by blast+
    then show ?thesis
      using False r' h string_of_nat_no_leading_zero [of "nat i"]
      by (simp add: parse_number_def string_of_int_def string_of_nat_nonempty
          nat_of_digits_string_of_nat Let_def)
  qed
qed

subsection \<open>Strings\<close>

lemma hex_val_hex_char: "d < 16 \<Longrightarrow> hex_val (hex_char d) = Some d"
proof -
  assume "d < 16"
  then consider "d = 0" | "d = 1" | "d = 2" | "d = 3" | "d = 4" | "d = 5" | "d = 6" | "d = 7"
    | "d = 8" | "d = 9" | "d = 10" | "d = 11" | "d = 12" | "d = 13" | "d = 14" | "d = 15"
    by atomize_elim arith
  then show ?thesis
    by cases (simp_all add: hex_char_def hex_val_def)
qed

lemma parse_hex4_00: 
  assumes "a < 16" "b < 16"
  shows "parse_hex4 (CHR ''0'' # CHR ''0'' # hex_char a # hex_char b # rest) = Some (a * 16 + b)"
proof -
  have z: "hex_val (CHR ''0'') = Some 0" by (simp add: hex_val_def)
  show ?thesis
    using assms by (simp add: parse_hex4_def z hex_val_hex_char)
qed

lemma parse_chars_escape:
  "parse_chars (escape_char c @ tail) = map_option (\<lambda>(s, t). (c # s, t)) (parse_chars tail)"
proof -
  consider (q) "c = dquote" | (b) "c = bslash"
    | (named) "c \<noteq> dquote" "c \<noteq> bslash" "c \<in> {CHR 0x08, CHR 0x0C, CHR 0x0A, CHR 0x0D, CHR 0x09}"
    | (ctl) "c \<noteq> dquote" "c \<noteq> bslash" "c \<notin> {CHR 0x08, CHR 0x0C, CHR 0x0A, CHR 0x0D, CHR 0x09}" "(of_char c :: nat) < 32"
    | (plain) "c \<noteq> dquote" "c \<noteq> bslash" "c \<notin> {CHR 0x08, CHR 0x0C, CHR 0x0A, CHR 0x0D, CHR 0x09}" "\<not> (of_char c :: nat) < 32"
    by blast
  then show ?thesis
  proof cases
    case q
    then show ?thesis by (simp add: escape_char_def unescape_def dquote_def bslash_def)
  next
    case b
    then show ?thesis by (simp add: escape_char_def unescape_def dquote_def bslash_def)
  next
    case named
    then show ?thesis by (auto simp: escape_char_def unescape_def dquote_def bslash_def)
  next
    case ctl
    let ?n = "of_char c :: nat"
    have lt: "?n div 16 < 16" "?n mod 16 < 16" using ctl(4) by auto
    have e: "escape_char c = [bslash, CHR ''u'', CHR ''0'', CHR ''0'', hex_char (?n div 16), hex_char (?n mod 16)]"
      using ctl by (simp add: escape_char_def)
    have h: "parse_hex4 (CHR ''0'' # CHR ''0'' # hex_char (?n div 16) # hex_char (?n mod 16) # tail) = Some ?n"
      using parse_hex4_00 [OF lt, of tail] by simp
    have lt256: "?n < 256" using ctl(4) by simp
    show ?thesis
      using lt256 by (simp add: e h bslash_def dquote_def)
  next
    case plain
    then show ?thesis by (simp add: escape_char_def)
  qed
qed

lemma parse_chars_quoted:
  "parse_chars (concat (map escape_char s) @ dquote # rest) = Some (s, rest)"
proof (induction s)
  case Nil
  show ?case by simp
next
  case (Cons c s)
  have "parse_chars (concat (map escape_char (c # s)) @ dquote # rest)
        = parse_chars (escape_char c @ (concat (map escape_char s) @ dquote # rest))"
    by simp
  also have "\<dots> = Some (c # s, rest)"
    by (simp only: parse_chars_escape Cons.IH) simp
  finally show ?case .
qed

lemma json_quote_append: "json_quote s @ rest = dquote # concat (map escape_char s) @ dquote # rest"
  by (simp add: json_quote_def)

subsection \<open>Values\<close>

lemma skip_ws_Cons: "\<not> is_ws c \<Longrightarrow> skip_ws (c # r) = c # r"
  by (simp add: skip_ws_def)

lemma punct_not_ws:
  "\<not> is_ws (CHR '']'')" "\<not> is_ws (CHR ''}'')" "\<not> is_ws (CHR '','')" "\<not> is_ws (CHR '':'')"
  "\<not> is_ws dquote"
  by (simp_all add: is_ws_def dquote_def)

lemma value_start_not_ws: "value_start c \<Longrightarrow> \<not> is_ws c"
  by (auto simp: value_start_def is_ws_def is_digit_def dquote_def)

lemma value_start_not_close: "value_start c \<Longrightarrow> c \<noteq> CHR '']'' \<and> c \<noteq> CHR ''}''"
  by (auto simp: value_start_def is_digit_def dquote_def)

lemma punct_delimited:
  "delimited (CHR '']'' # r)" "delimited (CHR ''}'' # r)" "delimited (CHR '','' # r)" "delimited []"
  by (simp_all add: delimited_def is_digit_def)

lemma string_of_int_start: "\<exists>c r. string_of_int i = c # r \<and> (c = CHR ''-'' \<or> is_digit c)"
proof (cases "i < 0")
  case True
  then show ?thesis by (simp add: string_of_int_def)
next
  case False
  obtain c r where cr: "string_of_nat (nat i) = c # r"
    using string_of_nat_nonempty [of "nat i"] by (cases "string_of_nat (nat i)") auto
  then have "is_digit c" using hd_string_of_nat_digit [of "nat i"] by simp
  then show ?thesis using False cr by (simp add: string_of_int_def)
qed

lemma stringify_start: "\<exists>c r. JSON_stringify v = c # r \<and> value_start c"
proof (cases v)
  case (JNum i)
  then show ?thesis
    using string_of_int_start [of i] by (auto simp: value_start_def)
qed (auto simp: value_start_def json_quote_def)

lemma parse_value_null: "parse_value (Suc n) (''null'' @ rest) = Some (JNull, rest)"
  by (simp add: skip_ws_def is_ws_def)

lemma parse_value_true: "parse_value (Suc n) (''true'' @ rest) = Some (JBool True, rest)"
  by (simp add: skip_ws_def is_ws_def)

lemma parse_value_false: "parse_value (Suc n) (''false'' @ rest) = Some (JBool False, rest)"
  by (simp add: skip_ws_def is_ws_def)

lemma parse_value_num:
  assumes "delimited rest"
  shows "parse_value (Suc n) (string_of_int i @ rest) = Some (JNum i, rest)"
proof -
  obtain c r where cr: "string_of_int i = c # r" and c: "c = CHR ''-'' \<or> is_digit c"
    using string_of_int_start by blast
  have ws: "skip_ws (c # r @ rest) = c # r @ rest"
    using c by (intro skip_ws_Cons value_start_not_ws) (auto simp: value_start_def)
  have ne: "c \<noteq> CHR ''n''" "c \<noteq> CHR ''t''" "c \<noteq> CHR ''f''" "c \<noteq> dquote" "c \<noteq> CHR ''[''" "c \<noteq> CHR ''{''"
    using c by (auto simp: is_digit_def dquote_def)
  have "parse_number (c # r @ rest) = Some (i, rest)"
    using parse_number_string_of_int [OF assms, of i] cr by simp
  then show ?thesis
    using ne by (simp add: cr ws Let_def)
qed

lemma parse_value_str: "parse_value (Suc n) (json_quote s @ rest) = Some (JStr s, rest)"
proof -
  have ws: "skip_ws (dquote # concat (map escape_char s) @ dquote # rest)
            = dquote # concat (map escape_char s) @ dquote # rest"
    by (rule skip_ws_Cons) (rule punct_not_ws)
  show ?thesis
    by (simp add: json_quote_append ws Let_def parse_chars_quoted) (simp add: dquote_def)
qed

lemma parse_value_arr_empty: "parse_value (Suc n) (CHR ''['' # CHR '']'' # rest) = Some (JArr [], rest)"
  by (simp add: skip_ws_def is_ws_def dquote_def)

lemma parse_value_obj_empty: "parse_value (Suc n) (CHR ''{'' # CHR ''}'' # rest) = Some (JObj [], rest)"
  by (simp add: skip_ws_def is_ws_def dquote_def)

lemma parse_value_arr:
  assumes "value_start c"
  shows "parse_value (Suc n) (CHR ''['' # c # t)
         = map_option (\<lambda>(xs, r). (JArr xs, r)) (parse_elems n (c # t))"
proof -
  have "skip_ws (c # t) = c # t"
    using assms by (intro skip_ws_Cons value_start_not_ws)
  moreover have "c \<noteq> CHR '']''" using value_start_not_close [OF assms] by simp
  ultimately show ?thesis
    by (simp add: skip_ws_def is_ws_def dquote_def Let_def)
qed

lemma parse_value_obj:
  "parse_value (Suc n) (CHR ''{'' # dquote # t)
   = map_option (\<lambda>(kvs, r). (JObj kvs, r)) (parse_members n (dquote # t))"
proof -
  have "skip_ws (dquote # t) = dquote # t"
    by (rule skip_ws_Cons) (rule punct_not_ws)
  moreover have "dquote \<noteq> CHR ''}''" by (simp add: dquote_def)
  ultimately show ?thesis
    by (simp add: skip_ws_def is_ws_def Let_def) (simp add: dquote_def)
qed

lemma parse_elems_step_last:
  assumes "parse_value n s = Some (x, CHR '']'' # rest)"
  shows "parse_elems (Suc n) s = Some ([x], rest)"
  using assms by (simp add: skip_ws_Cons punct_not_ws)

lemma parse_elems_step_more:
  assumes "parse_value n s = Some (x, CHR '','' # t)" "parse_elems n t = Some (xs, rest)"
  shows "parse_elems (Suc n) s = Some (x # xs, rest)"
  using assms by (simp add: skip_ws_Cons punct_not_ws)

lemma parse_members_step_last:
  assumes "parse_value n s = Some (v, CHR ''}'' # rest)"
  shows "parse_members (Suc n) (json_quote k @ CHR '':'' # s) = Some ([(k, v)], rest)"
  using assms
  by (simp add: json_quote_append skip_ws_Cons punct_not_ws parse_chars_quoted)

lemma parse_members_step_more:
  assumes "parse_value n s = Some (v, CHR '','' # t)" "parse_members n t = Some (kvs, rest)"
  shows "parse_members (Suc n) (json_quote k @ CHR '':'' # s) = Some ((k, v) # kvs, rest)"
  using assms
  by (simp add: json_quote_append skip_ws_Cons punct_not_ws parse_chars_quoted)

lemma stringify_elems_start:
  "xs \<noteq> [] \<Longrightarrow> \<exists>c r. stringify_elems xs = c # r \<and> value_start c"
proof (cases xs)
  case Nil
  assume "xs \<noteq> []"
  with Nil show ?thesis by simp
next
  case (Cons x ys)
  obtain c r where "JSON_stringify x = c # r" "value_start c"
    using stringify_start by blast
  then show ?thesis using Cons by (cases ys) auto
qed

lemma stringify_members_start:
  "kvs \<noteq> [] \<Longrightarrow> \<exists>r. stringify_members kvs = dquote # r"
proof (cases kvs)
  case Nil
  assume "kvs \<noteq> []"
  with Nil show ?thesis by simp
next
  case (Cons kv ys)
  then show ?thesis by (cases kv; cases ys) (auto simp: json_quote_def)
qed

lemma parse_stringify_aux:
  "\<forall>n rest. length (JSON_stringify v) \<le> n \<longrightarrow> delimited rest \<longrightarrow>
      parse_value n (JSON_stringify v @ rest) = Some (v, rest)"
  "xs \<noteq> [] \<longrightarrow> (\<forall>n rest. length (stringify_elems xs) \<le> n \<longrightarrow>
      parse_elems n (stringify_elems xs @ rest) = Some (xs, rest))"
  "kvs \<noteq> [] \<longrightarrow> (\<forall>n rest. length (stringify_members kvs) \<le> n \<longrightarrow>
      parse_members n (stringify_members kvs @ rest) = Some (kvs, rest))"
proof (induction v and xs and kvs rule: JSON_stringify_stringify_elems_stringify_members.induct)
  case 1
  show ?case
  proof (intro allI impI)
    fix n :: nat and rest
    assume "length (JSON_stringify JNull) \<le> n"
    then obtain m where "n = Suc m" by (cases n) auto
    then show "parse_value n (JSON_stringify JNull @ rest) = Some (JNull, rest)"
      using parse_value_null [of m rest] by simp
  qed
next
  case (2 b)
  show ?case
  proof (intro allI impI)
    fix n :: nat and rest
    assume "length (JSON_stringify (JBool b)) \<le> n"
    then obtain m where "n = Suc m" by (cases n) (auto split: if_splits)
    then show "parse_value n (JSON_stringify (JBool b) @ rest) = Some (JBool b, rest)"
      using parse_value_true [of m rest] parse_value_false [of m rest] by simp
  qed
next
  case (3 i)
  show ?case
  proof (intro allI impI)
    fix n :: nat and rest
    assume "length (JSON_stringify (JNum i)) \<le> n" and d: "delimited rest"
    moreover have "string_of_int i \<noteq> []" using string_of_int_start [of i] by auto
    ultimately obtain m where "n = Suc m" by (cases n) auto
    then show "parse_value n (JSON_stringify (JNum i) @ rest) = Some (JNum i, rest)"
      using parse_value_num [OF d, of m i] by simp
  qed
next
  case (4 s)
  show ?case
  proof (intro allI impI)
    fix n :: nat and rest
    assume "length (JSON_stringify (JStr s)) \<le> n"
    then obtain m where "n = Suc m" by (cases n) (auto simp: json_quote_def)
    then show "parse_value n (JSON_stringify (JStr s) @ rest) = Some (JStr s, rest)"
      using parse_value_str [of m s rest] by simp
  qed
next
  case (5 xs)
  show ?case
  proof (intro allI impI)
    fix n :: nat and rest
    assume len: "length (JSON_stringify (JArr xs)) \<le> n"
    then obtain m where n: "n = Suc m" and m: "length (stringify_elems xs) \<le> m"
      by (cases n) auto
    show "parse_value n (JSON_stringify (JArr xs) @ rest) = Some (JArr xs, rest)"
    proof (cases "xs = []")
      case True
      then show ?thesis using n parse_value_arr_empty [of m rest] by simp
    next
      case False
      then obtain c r where cr: "stringify_elems xs = c # r" and c: "value_start c"
        using stringify_elems_start by blast
      have "parse_elems m (stringify_elems xs @ rest) = Some (xs, rest)"
        using 5 False m by blast
      then show ?thesis
        using n parse_value_arr [OF c, of m "r @ rest"] cr by simp
    qed
  qed
next
  case (6 kvs)
  show ?case
  proof (intro allI impI)
    fix n :: nat and rest
    assume len: "length (JSON_stringify (JObj kvs)) \<le> n"
    then obtain m where n: "n = Suc m" and m: "length (stringify_members kvs) \<le> m"
      by (cases n) auto
    show "parse_value n (JSON_stringify (JObj kvs) @ rest) = Some (JObj kvs, rest)"
    proof (cases "kvs = []")
      case True
      then show ?thesis using n parse_value_obj_empty [of m rest] by simp
    next
      case False
      then obtain r where cr: "stringify_members kvs = dquote # r"
        using stringify_members_start by blast
      have "parse_members m (stringify_members kvs @ rest) = Some (kvs, rest)"
        using 6 False m by blast
      then show ?thesis
        using n parse_value_obj [of m "r @ rest"] cr by simp
    qed
  qed
next
  case 7
  show ?case by simp
next
  case (8 x)
  show ?case
  proof (intro allI impI)
    fix n :: nat and rest
    assume "[x] \<noteq> []" and len: "length (stringify_elems [x]) \<le> n"
    then obtain m where n: "n = Suc m" and m: "length (JSON_stringify x) \<le> m"
      by (cases n) auto
    have "parse_value m (JSON_stringify x @ CHR '']'' # rest) = Some (x, CHR '']'' # rest)"
      using 8 m punct_delimited(1) by blast
    then show "parse_elems n (stringify_elems [x] @ rest) = Some ([x], rest)"
      using n parse_elems_step_last by simp
  qed
next
  case (9 x y ys)
  show ?case
  proof (intro allI impI)
    fix n :: nat and rest
    assume len: "length (stringify_elems (x # y # ys)) \<le> n"
    then obtain m where n: "n = Suc m" and m1: "length (JSON_stringify x) \<le> m"
      and m2: "length (stringify_elems (y # ys)) \<le> m"
      by (cases n) auto
    let ?t = "stringify_elems (y # ys) @ rest"
    have "parse_value m (JSON_stringify x @ CHR '','' # ?t) = Some (x, CHR '','' # ?t)"
      using "9.IH"(1) m1 punct_delimited(3) by blast
    moreover have "parse_elems m ?t = Some (y # ys, rest)"
      using "9.IH"(2) m2 by blast
    ultimately show "parse_elems n (stringify_elems (x # y # ys) @ rest) = Some (x # y # ys, rest)"
      using n parse_elems_step_more by simp
  qed
next
  case 10
  show ?case by simp
next
  case (11 k v)
  show ?case
  proof (intro allI impI)
    fix n :: nat and rest
    assume len: "length (stringify_members [(k, v)]) \<le> n"
    then obtain m where n: "n = Suc m" and m: "length (JSON_stringify v) \<le> m"
      by (cases n) auto
    have "parse_value m (JSON_stringify v @ CHR ''}'' # rest) = Some (v, CHR ''}'' # rest)"
      using 11 m punct_delimited(2) by blast
    then show "parse_members n (stringify_members [(k, v)] @ rest) = Some ([(k, v)], rest)"
      using n parse_members_step_last by simp
  qed
next
  case (12 k v kv kvs)
  show ?case
  proof (intro allI impI)
    fix n :: nat and rest
    assume len: "length (stringify_members ((k, v) # kv # kvs)) \<le> n"
    then obtain m where n: "n = Suc m" and m1: "length (JSON_stringify v) \<le> m"
      and m2: "length (stringify_members (kv # kvs)) \<le> m"
      by (cases n) auto
    let ?t = "stringify_members (kv # kvs) @ rest"
    have "parse_value m (JSON_stringify v @ CHR '','' # ?t) = Some (v, CHR '','' # ?t)"
      using "12.IH"(1) m1 punct_delimited(3) by blast
    moreover have "parse_members m ?t = Some (kv # kvs, rest)"
      using "12.IH"(2) m2 by blast
    ultimately show "parse_members n (stringify_members ((k, v) # kv # kvs) @ rest)
        = Some ((k, v) # kv # kvs, rest)"
      using n parse_members_step_more by simp
  qed
qed

lemma parse_text_stringify: "parse_text (JSON_stringify v) = Some v"
proof -
  have "parse_value (length (JSON_stringify v)) (JSON_stringify v @ []) = Some (v, [])"
    using parse_stringify_aux(1) [of v] punct_delimited(4) by blast
  then show ?thesis
    by (simp add: parse_text_def skip_ws_def)
qed

lemma JSON_stringify_nonempty: "JSON_stringify v \<noteq> []"
  using stringify_start [of v] by auto

section \<open>The session helpers: claim C9\<close>

lemma getItem_setItem_same:
  "setItem st key v = Inr st' \<Longrightarrow> getItem st' key = Inr (Some v)"
  by (auto simp: setItem_def getItem_def update_Some_unfold split: if_splits)

lemma getItem_setItem_other:
  "setItem st key v = Inr st' \<Longrightarrow> k \<noteq> key \<Longrightarrow> getItem st' k = getItem st k"
  by (auto simp: setItem_def getItem_def update_conv' split: if_splits)

lemma getItem_removeItem_same:
  "removeItem st key = Inr st' \<Longrightarrow> getItem st' key = Inr None"
  by (auto simp: removeItem_def getItem_def delete_conv' split: if_splits)

lemma getItem_removeItem_other:
  "removeItem st key = Inr st' \<Longrightarrow> k \<noteq> key \<Longrightarrow> getItem st' k = getItem st k"
  by (auto simp: removeItem_def getItem_def delete_conv' split: if_splits)

lemma saveSession_cases:
  "saveSession J st key val = st
   \<or> (\<exists>serialized. setItem st key serialized = Inr (saveSession J st key val))"
  by (auto simp: saveSession_def split: option.split sum.split)

lemma getItem_saveSession_other:
  "k \<noteq> key \<Longrightarrow> getItem (saveSession J st key val) k = getItem st k"
  using saveSession_cases [of J st key val] getItem_setItem_other by fastforce

lemma loadSession_saveSession_other:
  "k \<noteq> key \<Longrightarrow> loadSession J (saveSession J st key val) k fb = loadSession J st k fb"
  by (simp add: loadSession_def getItem_saveSession_other)





section \<open>What the exchange and the redirect-landing guard change\<close>

lemma access_denied_setItem: "setItem st k v = Inr st' \<Longrightarrow> \<not> access_denied st \<and> \<not> access_denied st'"
  by (auto simp: setItem_def split: if_splits)

lemma loadSession_setItem_other:
  "setItem st key v = Inr st' \<Longrightarrow> k \<noteq> key \<Longrightarrow> loadSession J st' k fb = loadSession J st k fb"
  by (simp add: loadSession_def getItem_setItem_other)

lemma getItem_remove_flow_entries_other:
  assumes "k \<noteq> ''pkce_verifier:'' @ state" "k \<noteq> ''pkce_client:'' @ state"
  shows "getItem (remove_flow_entries st state) k = getItem st k"
proof (cases "removeItem st (''pkce_verifier:'' @ state)")
  case (Inl e)
  then show ?thesis by (simp add: remove_flow_entries_def)
next
  case (Inr st1)
  note r1 = this
  show ?thesis
  proof (cases "removeItem st1 (''pkce_client:'' @ state)")
    case (Inl e)
    then show ?thesis
      using r1 assms getItem_removeItem_other [OF r1, of k]
      by (simp add: remove_flow_entries_def)
  next
    case (Inr st2)
    then show ?thesis
      using r1 assms getItem_removeItem_other [OF r1, of k] getItem_removeItem_other [OF Inr, of k]
      by (simp add: remove_flow_entries_def)
  qed
qed

lemma exchange_finish_frame:
  "net_log (exchange_finish J state cid r s) = net_log s"
  "exchangingRef (exchange_finish J state cid r s) = exchangingRef s"
  by (auto simp: exchange_finish_def Let_def split: fetch_result.splits option.splits)

lemma getItem_exchange_finish_other:
  assumes "k \<noteq> ''tokens''" "k \<noteq> ''pkce_verifier:'' @ state" "k \<noteq> ''pkce_client:'' @ state"
  shows "getItem (sessionStorage (exchange_finish J state cid r s)) k = getItem (sessionStorage s) k"
  using assms
  by (auto simp: exchange_finish_def Let_def getItem_saveSession_other
      getItem_remove_flow_entries_other split: fetch_result.splits option.splits)

lemma exchange_begin_frame:
  "exchange_begin C J code state s = (p, s1) \<Longrightarrow>
     sessionStorage s1 = sessionStorage s \<and> exchangingRef s1 = exchangingRef s \<and> tokens s1 = tokens s"
  by (auto simp: exchange_begin_def Let_def split: if_splits)

lemma exchange_begin_calls:
  "exchange_begin C J code state s = (None, s1) \<Longrightarrow> net_log s1 = net_log s"
  "exchange_begin C J code state s = (Some (req, cid), s1) \<Longrightarrow>
     net_log s1 = net_log s @ [req] \<and> is_code_exchange C req"
  by (auto simp: exchange_begin_def exchange_request_def is_code_exchange_def Let_def split: if_splits)

text \<open>What the guard returns, case by case.\<close>

lemma landing_guard_NoOp: "landing_guard J cp sp s = (NoOp, a) \<Longrightarrow> a = s"
  by (auto simp: landing_guard_def Let_def split: option.splits if_splits sum.splits)

lemma landing_guard_Launched:
  assumes "landing_guard J cp sp s = (Launched c st, a)"
  shows "cp = Some c" "sp = Some st" "c \<noteq> []" "st \<noteq> []"
    "loadSession J (sessionStorage s) ''pkce_state'' JNull = JStr st"
    "\<not> exchangingRef s"
    "\<exists>u. getItem (sessionStorage s) (''pkce_code_used:'' @ st @ '':'' @ c) = Inr u \<and> (u = None \<or> u = Some [])"
    "\<exists>st'. setItem (sessionStorage s) (''pkce_code_used:'' @ st @ '':'' @ c) ''1'' = Inr st'
        \<and> a = s\<lparr>exchangingRef := True, sessionStorage := st'\<rparr>"
  using assms
  by (auto simp: landing_guard_def Let_def split: option.splits if_splits sum.splits)

lemma landing_guard_Threw:
  assumes "landing_guard J cp sp s = (Threw e, a)"
  shows "(a = s \<and> (\<exists>c st. cp = Some c \<and> sp = Some st
            \<and> getItem (sessionStorage s) (''pkce_code_used:'' @ st @ '':'' @ c) = Inl e))
         \<or> (a = s\<lparr>exchangingRef := True\<rparr> \<and> (\<exists>c st u. cp = Some c \<and> sp = Some st
            \<and> getItem (sessionStorage s) (''pkce_code_used:'' @ st @ '':'' @ c) = Inr u))"
  using assms
  by (auto simp: landing_guard_def Let_def split: option.splits if_splits sum.splits)

lemma landing_guard_marked:
  assumes "getItem (sessionStorage s) (''pkce_code_used:'' @ st @ '':'' @ c) = Inr (Some ''1'')"
  shows "landing_guard J (Some c) (Some st) s = (NoOp, s)"
  using assms by (simp add: landing_guard_def Let_def)

lemma landing_guard_flagged:
  assumes "getItem (sessionStorage s) (''pkce_code_used:'' @ st @ '':'' @ c) = Inr u" "exchangingRef s"
  shows "landing_guard J (Some c) (Some st) s = (NoOp, s)"
  using assms by (simp add: landing_guard_def Let_def)

text \<open>The guard reads the storage and the flag only.\<close>

lemma landing_guard_reads:
  assumes "sessionStorage s' = sessionStorage s" "exchangingRef s' = exchangingRef s"
  shows "fst (landing_guard J cp sp s') = fst (landing_guard J cp sp s)"
  using assms
  by (auto simp: landing_guard_def Let_def split: option.splits if_splits sum.splits)

lemma landing_sync_NoOp: "landing_guard J cp sp s = (NoOp, s) \<Longrightarrow> landing_sync C J cp sp s = (Skipped, s)"
  by (simp add: landing_sync_def)

lemma used_key_distinct:
  "''pkce_code_used:'' @ x \<noteq> ''tokens''"
  "''pkce_code_used:'' @ x \<noteq> ''pkce_verifier:'' @ y"
  "''pkce_code_used:'' @ x \<noteq> ''pkce_client:'' @ y"
  "''pkce_code_used:'' @ x \<noteq> ''pkce_state''"
  "''pkce_code_used:'' @ x \<noteq> ''pkce_verifier''"
  by simp_all

text \<open>After a first invocation, in the state it leaves at its first await, a second one
  starts nothing and changes nothing.\<close>

lemma landing_sync_again:
  assumes "landing_sync C J cp sp s = (r1, a)"
  shows "\<exists>r2. landing_sync C J cp sp a = (r2, a) \<and> (\<forall>p. r2 \<noteq> Started p)"
proof -
  obtain g s1 where g: "landing_guard J cp sp s = (g, s1)" by (cases "landing_guard J cp sp s")
  show ?thesis
  proof (cases g)
    case NoOp
    then have "s1 = s" using g landing_guard_NoOp by blast
    then have "a = s" "landing_sync C J cp sp s = (Skipped, s)"
      using assms g NoOp by (simp_all add: landing_sync_def)
    then show ?thesis by simp
  next
    case (Threw e)
    then have a: "a = s1" "r1 = Failed e" using assms g by (simp_all add: landing_sync_def)
    from landing_guard_Threw [OF g [unfolded Threw]]
    show ?thesis
    proof
      assume "s1 = s \<and> (\<exists>c st. cp = Some c \<and> sp = Some st
            \<and> getItem (sessionStorage s) (''pkce_code_used:'' @ st @ '':'' @ c) = Inl e)"
      then have "a = s" using a by simp
      then show ?thesis using assms a by simp
    next
      assume h: "s1 = s\<lparr>exchangingRef := True\<rparr> \<and> (\<exists>c st u. cp = Some c \<and> sp = Some st
            \<and> getItem (sessionStorage s) (''pkce_code_used:'' @ st @ '':'' @ c) = Inr u)"
      then obtain c st u where c: "cp = Some c" "sp = Some st"
        and u: "getItem (sessionStorage s) (''pkce_code_used:'' @ st @ '':'' @ c) = Inr u"
        by blast
      have "landing_guard J (Some c) (Some st) s1 = (NoOp, s1)"
        using h u by (intro landing_guard_flagged [where u = u]) simp_all
      then have "landing_sync C J cp sp a = (Skipped, a)"
        using a c landing_sync_NoOp by simp
      then show ?thesis by simp
    qed
  next
    case (Launched c st)
    note L = landing_guard_Launched [OF g [unfolded Launched]]
    from L(8) obtain st' where st': "setItem (sessionStorage s) (''pkce_code_used:'' @ st @ '':'' @ c) ''1'' = Inr st'"
      and s1: "s1 = s\<lparr>exchangingRef := True, sessionStorage := st'\<rparr>" by blast
    obtain p s2 where b: "exchange_begin C J c st s1 = (p, s2)" by (cases "exchange_begin C J c st s1")
    have a: "a = s2"
      using assms g Launched b by (cases p) (auto simp: landing_sync_def)
    have "sessionStorage a = st'"
      using exchange_begin_frame [OF b] a s1 by simp
    then have "getItem (sessionStorage a) (''pkce_code_used:'' @ st @ '':'' @ c) = Inr (Some ''1'')"
      using getItem_setItem_same [OF st'] by simp
    then have "landing_guard J (Some c) (Some st) a = (NoOp, a)"
      by (rule landing_guard_marked)
    then have "landing_sync C J cp sp a = (Skipped, a)"
      using L(1,2) landing_sync_NoOp by simp
    then show ?thesis by simp
  qed
qed

text \<open>The same once the first invocation has run to its end.\<close>

lemma landing_sync_after_settle:
  assumes "landing_sync C J cp sp s = (r1, a)"
  shows "\<exists>r2. landing_sync C J cp sp (landing_settle J net r1 a) = (r2, landing_settle J net r1 a)
          \<and> (\<forall>p. r2 \<noteq> Started p)"
proof (cases r1)
  case Skipped
  then show ?thesis using landing_sync_again [OF assms] by (simp add: landing_settle_def)
next
  case (Failed e)
  then show ?thesis using landing_sync_again [OF assms] by (simp add: landing_settle_def)
next
  case (Started pending)
  obtain g s1 where g: "landing_guard J cp sp s = (g, s1)" by (cases "landing_guard J cp sp s")
  from assms Started g obtain c st where gl: "g = Launched c st"
    by (cases g) (auto simp: landing_sync_def)
  note L = landing_guard_Launched [OF g [unfolded gl]]
  from L(8) obtain st' where st': "setItem (sessionStorage s) (''pkce_code_used:'' @ st @ '':'' @ c) ''1'' = Inr st'"
    and s1: "s1 = s\<lparr>exchangingRef := True, sessionStorage := st'\<rparr>" by blast
  obtain p s2 where b: "exchange_begin C J c st s1 = (p, s2)" by (cases "exchange_begin C J c st s1")
  have a: "a = s2"
    using assms g gl b by (cases p) (auto simp: landing_sync_def)
  have pend: "pending = None \<or> (\<exists>req cid. pending = Some (req, cid, st))"
    using assms g gl b Started by (cases p) (auto simp: landing_sync_def)
  have m: "getItem (sessionStorage a) (''pkce_code_used:'' @ st @ '':'' @ c) = Inr (Some ''1'')"
    using exchange_begin_frame [OF b] a s1 getItem_setItem_same [OF st'] by simp
  let ?f = "landing_settle J net r1 a"
  have "getItem (sessionStorage ?f) (''pkce_code_used:'' @ st @ '':'' @ c) = Inr (Some ''1'')"
    using pend m Started
    by (auto simp: landing_settle_def Let_def getItem_exchange_finish_other)
  then have "landing_guard J (Some c) (Some st) ?f = (NoOp, ?f)"
    by (rule landing_guard_marked)
  then have "landing_sync C J cp sp ?f = (Skipped, ?f)"
    using L(1,2) landing_sync_NoOp by simp
  then show ?thesis by simp
qed

lemma landing_settle_not_Started: "(\<forall>p. r \<noteq> Started p) \<Longrightarrow> landing_settle J net r s = s"
  by (cases r) (simp_all add: landing_settle_def)

lemma twice_overlapped_eq: "twice_overlapped C J net cp sp s = landing_effect C J net cp sp s"
proof -
  obtain r1 a where 1: "landing_sync C J cp sp s = (r1, a)" by (cases "landing_sync C J cp sp s")
  obtain r2 where 2: "landing_sync C J cp sp a = (r2, a)" "\<forall>p. r2 \<noteq> Started p"
    using landing_sync_again [OF 1] by blast
  show ?thesis
    using 1 2 by (simp add: twice_overlapped_def landing_effect_def landing_settle_not_Started)
qed

lemma twice_sequential_eq: "twice_sequential C J net cp sp s = landing_effect C J net cp sp s"
proof -
  obtain r1 a where 1: "landing_sync C J cp sp s = (r1, a)" by (cases "landing_sync C J cp sp s")
  obtain r2 where 2: "landing_sync C J cp sp (landing_settle J net r1 a) = (r2, landing_settle J net r1 a)"
      "\<forall>p. r2 \<noteq> Started p"
    using landing_sync_after_settle [OF 1] by blast
  show ?thesis
    using 1 2 by (simp add: twice_sequential_def landing_effect_def landing_settle_not_Started)
qed

lemma landing_guard_frame:
  "landing_guard J cp sp s = (g, a) \<Longrightarrow> net_log a = net_log s \<and> tokens a = tokens s \<and> error a = error s"
  by (auto simp: landing_guard_def Let_def split: option.splits if_splits sum.splits)

lemma landing_sync_calls:
  assumes "landing_sync C J cp sp s = (r, a)"
  shows "(net_log a = net_log s \<and> (\<forall>req cid st. r \<noteq> Started (Some (req, cid, st))))
         \<or> (\<exists>req cid st. r = Started (Some (req, cid, st)) \<and> net_log a = net_log s @ [req]
               \<and> is_code_exchange C req)"
proof -
  obtain g s1 where g: "landing_guard J cp sp s = (g, s1)" by (cases "landing_guard J cp sp s")
  note f = landing_guard_frame [OF g]
  show ?thesis
  proof (cases g)
    case NoOp
    then show ?thesis using assms g f by (auto simp: landing_sync_def)
  next
    case (Threw e)
    then show ?thesis using assms g f by (auto simp: landing_sync_def)
  next
    case (Launched c st)
    obtain p s2 where b: "exchange_begin C J c st s1 = (p, s2)" by (cases "exchange_begin C J c st s1")
    show ?thesis
    proof (cases p)
      case None
      then show ?thesis
        using assms g f Launched b exchange_begin_calls(1) [of C J c st s1 s2]
        by (auto simp: landing_sync_def)
    next
      case (Some rc)
      obtain req cid where rc: "rc = (req, cid)" by (cases rc)
      show ?thesis
        using assms g f Launched b Some rc exchange_begin_calls(2) [of C J c st s1 req cid s2]
        by (auto simp: landing_sync_def)
    qed
  qed
qed

lemma landing_settle_net_log: "net_log (landing_settle J net r a) = net_log a"
  by (auto simp: landing_settle_def Let_def exchange_finish_frame split: landing_result.splits option.splits)

lemma access_denied_loadSession: "access_denied st \<Longrightarrow> loadSession J st k JNull = JNull"
  by (simp add: loadSession_def getItem_def)

text \<open>
  The exchange issues its request exactly when a verifier is found, under the key of
  the state or under the key \<^verbatim>\<open>pkce_verifier\<close>.
\<close>

lemma exchange_begin_issues:
  assumes "state \<noteq> []"
  shows "(\<exists>req cid a. exchange_begin C J code state s = (Some (req, cid), a))
         \<longleftrightarrow> truthy (loadSession J (sessionStorage s) (''pkce_verifier:'' @ state) JNull)
              \<or> truthy (loadSession J (sessionStorage s) ''pkce_verifier'' JNull)"
  using assms by (auto simp: exchange_begin_def Let_def js_or_def js_and_def)

text \<open>
  The guard lets the exchange start exactly when both parameters are there, the state
  is the pending one, the marker of the pair is absent or empty, no exchange is in
  flight and the storage accepts the marker.
\<close>

lemma landing_guard_launches:
  assumes "c \<noteq> []" "st \<noteq> []"
    and "loadSession J (sessionStorage s) ''pkce_state'' JNull = JStr st"
    and "getItem (sessionStorage s) (''pkce_code_used:'' @ st @ '':'' @ c) = Inr None
         \<or> getItem (sessionStorage s) (''pkce_code_used:'' @ st @ '':'' @ c) = Inr (Some [])"
    and "\<not> exchangingRef s"
    and "setItem (sessionStorage s) (''pkce_code_used:'' @ st @ '':'' @ c) ''1'' = Inr st'"
  shows "landing_guard J (Some c) (Some st) s = (Launched c st, s\<lparr>exchangingRef := True, sessionStorage := st'\<rparr>)"
  using assms by (auto simp: landing_guard_def Let_def)

lemma landing_sync_issues:
  "(\<exists>req cid st a. landing_sync C J cp sp s = (Started (Some (req, cid, st)), a))
   \<longleftrightarrow> (\<exists>code state marked.
            cp = Some code \<and> sp = Some state \<and> code \<noteq> [] \<and> state \<noteq> []
          \<and> loadSession J (sessionStorage s) ''pkce_state'' JNull = JStr state
          \<and> (getItem (sessionStorage s) (''pkce_code_used:'' @ state @ '':'' @ code) = Inr None
             \<or> getItem (sessionStorage s) (''pkce_code_used:'' @ state @ '':'' @ code) = Inr (Some []))
          \<and> \<not> exchangingRef s
          \<and> setItem (sessionStorage s) (''pkce_code_used:'' @ state @ '':'' @ code) ''1'' = Inr marked
          \<and> (truthy (loadSession J (sessionStorage s) (''pkce_verifier:'' @ state) JNull)
             \<or> truthy (loadSession J (sessionStorage s) ''pkce_verifier'' JNull)))"
proof
  assume "\<exists>req cid st a. landing_sync C J cp sp s = (Started (Some (req, cid, st)), a)"
  then obtain req cid st a where 1: "landing_sync C J cp sp s = (Started (Some (req, cid, st)), a)"
    by blast
  obtain g s1 where g: "landing_guard J cp sp s = (g, s1)" by (cases "landing_guard J cp sp s")
  from 1 g obtain c st0 where gl: "g = Launched c st0"
    by (cases g) (auto simp: landing_sync_def)
  note L = landing_guard_Launched [OF g [unfolded gl]]
  from L(8) obtain st' where st': "setItem (sessionStorage s) (''pkce_code_used:'' @ st0 @ '':'' @ c) ''1'' = Inr st'"
    and s1: "s1 = s\<lparr>exchangingRef := True, sessionStorage := st'\<rparr>" by blast
  obtain p s2 where b: "exchange_begin C J c st0 s1 = (p, s2)" by (cases "exchange_begin C J c st0 s1")
  from 1 g gl b obtain rc where "p = Some rc"
    by (cases p) (auto simp: landing_sync_def)
  then have "\<exists>req cid a. exchange_begin C J c st0 s1 = (Some (req, cid), a)"
    using b by (cases rc) auto
  then have "truthy (loadSession J (sessionStorage s1) (''pkce_verifier:'' @ st0) JNull)
      \<or> truthy (loadSession J (sessionStorage s1) ''pkce_verifier'' JNull)"
    using exchange_begin_issues [OF L(4)] by blast
  then have v: "truthy (loadSession J (sessionStorage s) (''pkce_verifier:'' @ st0) JNull)
      \<or> truthy (loadSession J (sessionStorage s) ''pkce_verifier'' JNull)"
    using s1 loadSession_setItem_other [OF st', of "''pkce_verifier:'' @ st0" J JNull]
      loadSession_setItem_other [OF st', of "''pkce_verifier''" J JNull]
    by simp
  from L(7) have u: "getItem (sessionStorage s) (''pkce_code_used:'' @ st0 @ '':'' @ c) = Inr None
      \<or> getItem (sessionStorage s) (''pkce_code_used:'' @ st0 @ '':'' @ c) = Inr (Some [])"
    by blast
  show "(\<exists>code state marked.
            cp = Some code \<and> sp = Some state \<and> code \<noteq> [] \<and> state \<noteq> []
          \<and> loadSession J (sessionStorage s) ''pkce_state'' JNull = JStr state
          \<and> (getItem (sessionStorage s) (''pkce_code_used:'' @ state @ '':'' @ code) = Inr None
             \<or> getItem (sessionStorage s) (''pkce_code_used:'' @ state @ '':'' @ code) = Inr (Some []))
          \<and> \<not> exchangingRef s
          \<and> setItem (sessionStorage s) (''pkce_code_used:'' @ state @ '':'' @ code) ''1'' = Inr marked
          \<and> (truthy (loadSession J (sessionStorage s) (''pkce_verifier:'' @ state) JNull)
             \<or> truthy (loadSession J (sessionStorage s) ''pkce_verifier'' JNull)))"
    using L(1-6) u st' v by blast
next
  assume "(\<exists>code state marked.
            cp = Some code \<and> sp = Some state \<and> code \<noteq> [] \<and> state \<noteq> []
          \<and> loadSession J (sessionStorage s) ''pkce_state'' JNull = JStr state
          \<and> (getItem (sessionStorage s) (''pkce_code_used:'' @ state @ '':'' @ code) = Inr None
             \<or> getItem (sessionStorage s) (''pkce_code_used:'' @ state @ '':'' @ code) = Inr (Some []))
          \<and> \<not> exchangingRef s
          \<and> setItem (sessionStorage s) (''pkce_code_used:'' @ state @ '':'' @ code) ''1'' = Inr marked
          \<and> (truthy (loadSession J (sessionStorage s) (''pkce_verifier:'' @ state) JNull)
             \<or> truthy (loadSession J (sessionStorage s) ''pkce_verifier'' JNull)))"
  then obtain c st st' where h: "cp = Some c" "sp = Some st" "c \<noteq> []" "st \<noteq> []"
      "loadSession J (sessionStorage s) ''pkce_state'' JNull = JStr st"
      "getItem (sessionStorage s) (''pkce_code_used:'' @ st @ '':'' @ c) = Inr None
         \<or> getItem (sessionStorage s) (''pkce_code_used:'' @ st @ '':'' @ c) = Inr (Some [])"
      "\<not> exchangingRef s"
      "setItem (sessionStorage s) (''pkce_code_used:'' @ st @ '':'' @ c) ''1'' = Inr st'"
    and v: "truthy (loadSession J (sessionStorage s) (''pkce_verifier:'' @ st) JNull)
             \<or> truthy (loadSession J (sessionStorage s) ''pkce_verifier'' JNull)"
    by blast
  let ?s1 = "s\<lparr>exchangingRef := True, sessionStorage := st'\<rparr>"
  have g: "landing_guard J cp sp s = (Launched c st, ?s1)"
    using h landing_guard_launches by simp
  have "truthy (loadSession J (sessionStorage ?s1) (''pkce_verifier:'' @ st) JNull)
      \<or> truthy (loadSession J (sessionStorage ?s1) ''pkce_verifier'' JNull)"
    using v loadSession_setItem_other [OF h(8), of "''pkce_verifier:'' @ st" J JNull]
      loadSession_setItem_other [OF h(8), of "''pkce_verifier''" J JNull]
    by simp
  then obtain req cid a where "exchange_begin C J c st ?s1 = (Some (req, cid), a)"
    using exchange_begin_issues [OF h(4)] by blast
  then have "landing_sync C J cp sp s = (Started (Some (req, cid, st)), a)"
    using g by (simp add: landing_sync_def)
  then show "\<exists>req cid st a. landing_sync C J cp sp s = (Started (Some (req, cid, st)), a)"
    by blast
qed

lemma landing_effect_count:
  "token_calls C (landing_effect C J net cp sp s)
   = token_calls C s + (if (\<exists>code state marked.
            cp = Some code \<and> sp = Some state \<and> code \<noteq> [] \<and> state \<noteq> []
          \<and> loadSession J (sessionStorage s) ''pkce_state'' JNull = JStr state
          \<and> (getItem (sessionStorage s) (''pkce_code_used:'' @ state @ '':'' @ code) = Inr None
             \<or> getItem (sessionStorage s) (''pkce_code_used:'' @ state @ '':'' @ code) = Inr (Some []))
          \<and> \<not> exchangingRef s
          \<and> setItem (sessionStorage s) (''pkce_code_used:'' @ state @ '':'' @ code) ''1'' = Inr marked
          \<and> (truthy (loadSession J (sessionStorage s) (''pkce_verifier:'' @ state) JNull)
             \<or> truthy (loadSession J (sessionStorage s) ''pkce_verifier'' JNull))) then 1 else 0)"
proof -
  obtain r a where 1: "landing_sync C J cp sp s = (r, a)" by (cases "landing_sync C J cp sp s")
  have n: "net_log (landing_effect C J net cp sp s) = net_log a"
    using 1 by (simp add: landing_effect_def landing_settle_net_log)
  have i: "(\<exists>req cid st. r = Started (Some (req, cid, st))) \<longleftrightarrow> (\<exists>code state marked.
            cp = Some code \<and> sp = Some state \<and> code \<noteq> [] \<and> state \<noteq> []
          \<and> loadSession J (sessionStorage s) ''pkce_state'' JNull = JStr state
          \<and> (getItem (sessionStorage s) (''pkce_code_used:'' @ state @ '':'' @ code) = Inr None
             \<or> getItem (sessionStorage s) (''pkce_code_used:'' @ state @ '':'' @ code) = Inr (Some []))
          \<and> \<not> exchangingRef s
          \<and> setItem (sessionStorage s) (''pkce_code_used:'' @ state @ '':'' @ code) ''1'' = Inr marked
          \<and> (truthy (loadSession J (sessionStorage s) (''pkce_verifier:'' @ state) JNull)
             \<or> truthy (loadSession J (sessionStorage s) ''pkce_verifier'' JNull)))"
    using landing_sync_issues [of C J cp sp s] 1 by auto
  from landing_sync_calls [OF 1] show ?thesis
  proof
    assume "net_log a = net_log s \<and> (\<forall>req cid st. r \<noteq> Started (Some (req, cid, st)))"
    then show ?thesis using n i by (auto simp: token_calls_def)
  next
    assume "\<exists>req cid st. r = Started (Some (req, cid, st)) \<and> net_log a = net_log s @ [req]
               \<and> is_code_exchange C req"
    then show ?thesis using n i by (auto simp: token_calls_def)
  qed
qed

text \<open>
  A request of the landing is issued by \<open>exchange_begin\<close>, from the state the guard
  leaves: the marker is stored there and the request log is still the one the effect
  found.
\<close>

lemma landing_sync_marks_first:
  assumes "landing_sync C J cp sp s = (Started (Some (req, cid, st)), a)"
  shows "\<exists>c s1. cp = Some c \<and> sp = Some st
          \<and> landing_guard J cp sp s = (Launched c st, s1)
          \<and> getItem (sessionStorage s1) (''pkce_code_used:'' @ st @ '':'' @ c) = Inr (Some ''1'')
          \<and> net_log s1 = net_log s
          \<and> exchange_begin C J c st s1 = (Some (req, cid), a)
          \<and> net_log a = net_log s @ [req]
          \<and> getItem (sessionStorage a) (''pkce_code_used:'' @ st @ '':'' @ c) = Inr (Some ''1'')"
proof -
  obtain g s1 where g: "landing_guard J cp sp s = (g, s1)" by (cases "landing_guard J cp sp s")
  from assms g obtain c st0 where gl: "g = Launched c st0"
    by (cases g) (auto simp: landing_sync_def)
  note L = landing_guard_Launched [OF g [unfolded gl]]
  from L(8) obtain st' where st': "setItem (sessionStorage s) (''pkce_code_used:'' @ st0 @ '':'' @ c) ''1'' = Inr st'"
    and s1: "s1 = s\<lparr>exchangingRef := True, sessionStorage := st'\<rparr>" by blast
  obtain p s2 where b: "exchange_begin C J c st0 s1 = (p, s2)" by (cases "exchange_begin C J c st0 s1")
  have e: "st0 = st \<and> p = Some (req, cid) \<and> s2 = a"
    using assms g gl b by (cases p) (auto simp: landing_sync_def)
  have m: "getItem (sessionStorage s1) (''pkce_code_used:'' @ st @ '':'' @ c) = Inr (Some ''1'')"
    using s1 e getItem_setItem_same [OF st'] by simp
  have m': "getItem (sessionStorage a) (''pkce_code_used:'' @ st @ '':'' @ c) = Inr (Some ''1'')"
    using m e exchange_begin_frame [OF b] by simp
  have n: "net_log s1 = net_log s"
    using s1 by simp
  have n': "net_log a = net_log s @ [req]"
    using exchange_begin_calls(2) [of C J c st0 s1 req cid s2] b e n by simp
  show ?thesis
    using L(1,2) g gl e b m m' n n' by auto
qed

lemma json_quote_length: "length (json_quote ''st8'') = 5" "length (json_quote ''ver'') = 5"
  "length (json_quote ''client-1'') = 10"
  by (simp_all add: json_quote_def escape_char_def dquote_def bslash_def)

lemma pending_store_loads:
  "loadSession fragment_JSON pending_store ''pkce_state'' JNull = JStr ''st8''"
  "loadSession fragment_JSON pending_store ''pkce_verifier:st8'' JNull = JStr ''ver''"
  "loadSession fragment_JSON pending_store ''pkce_client:st8'' JNull = JStr ''client-1''"
  by (simp_all add: pending_store_def loadSession_def getItem_def fragment_JSON_def
      parse_text_stringify JSON_stringify_nonempty del: JSON_stringify.simps)

lemma pending_store_mark:
  "setItem pending_store ''pkce_code_used:st8:c0de'' ''1''
   = Inr (pending_store\<lparr>items := items pending_store @ [(''pkce_code_used:st8:c0de'', ''1'')]\<rparr>)"
  by (simp add: pending_store_def setItem_def usage_def json_quote_length)

section \<open>The redirect landing: claims C5 and C1\<close>

text \<open>
  Claim C5. For every redirect landing whose \<^verbatim>\<open>state\<close> parameter does not equal the
  stored pending state, or whose \<^verbatim>\<open>code\<close> or \<^verbatim>\<open>state\<close> parameter is absent (or empty), the
  handler performs no token-exchange call and does not throw, and it is silent: the
  effect returns at its first check, the whole state (the error banner and the request
  log included) is what it was.
\<close>

theorem landing_state_mismatch_is_silent:
  assumes "code_param = None \<or> code_param = Some [] \<or> state_param = None \<or> state_param = Some []
           \<or> (\<exists>state. state_param = Some state
                 \<and> JStr state \<noteq> loadSession J (sessionStorage s) ''pkce_state'' JNull)"
  shows "landing_sync C J code_param state_param s = (Skipped, s)
         \<and> landing_effect C J net code_param state_param s = s
         \<and> token_calls C (landing_effect C J net code_param state_param s) = token_calls C s
         \<and> error (landing_effect C J net code_param state_param s) = error s"
proof -
  have "landing_guard J code_param state_param s = (NoOp, s)"
    using assms by (auto simp: landing_guard_def Let_def split: option.splits)
  then have "landing_sync C J code_param state_param s = (Skipped, s)"
    by (rule landing_sync_NoOp)
  then show ?thesis
    by (simp add: landing_effect_def landing_settle_def)
qed

theorem landing_state_mismatch_is_silent_witness:
  "landing_sync example_config fragment_JSON (Some ''c0de'') (Some ''other'') (signed_out pending_store)
     = (Skipped, signed_out pending_store)
   \<and> landing_effect example_config fragment_JSON (token_endpoint_answers token_issued) (Some ''c0de'') (Some ''other'')
        (signed_out pending_store) = signed_out pending_store
   \<and> landing_effect example_config fragment_JSON (token_endpoint_answers token_issued) (Some ''c0de'') None
        (signed_out pending_store) = signed_out pending_store"
proof -
  have h: "JStr ''other'' \<noteq> loadSession fragment_JSON (sessionStorage (signed_out pending_store)) ''pkce_state'' JNull"
    by (simp add: signed_out_def pending_store_loads)
  have 1: "Some ''c0de'' = None \<or> Some ''c0de'' = Some [] \<or> Some ''other'' = (None :: string option)
      \<or> Some ''other'' = Some []
      \<or> (\<exists>state. Some ''other'' = Some state
            \<and> JStr state \<noteq> loadSession fragment_JSON (sessionStorage (signed_out pending_store)) ''pkce_state'' JNull)"
    using h by simp
  have 2: "Some ''c0de'' = None \<or> Some ''c0de'' = Some [] \<or> (None :: string option) = None
      \<or> (None :: string option) = Some []
      \<or> (\<exists>state. None = Some state
            \<and> JStr state \<noteq> loadSession fragment_JSON (sessionStorage (signed_out pending_store)) ''pkce_state'' JNull)"
    by simp
  show ?thesis
    using landing_state_mismatch_is_silent [OF 1, of example_config "token_endpoint_answers token_issued"]
      landing_state_mismatch_is_silent [OF 2, of example_config "token_endpoint_answers token_issued"]
    by simp
qed

text \<open>
  Claim C1 as stated fails: "for every (state, code) pair, two invocations result in
  exactly one token-exchange call". Here the state equals the pending state and the
  code has not been used, but no verifier is stored, neither for the state nor under
  the key \<^verbatim>\<open>pkce_verifier\<close> (the storage is the one a completed login with the same
  state leaves): both invocations together make no call, whichever way they interleave.
\<close>

theorem landing_twice_without_verifier_counterexample:
  "token_calls example_config
     (twice_sequential example_config fragment_JSON (token_endpoint_answers token_issued) (Some ''c0de'') (Some ''st8'')
        (signed_out spent_store)) = 0
   \<and> token_calls example_config
     (twice_overlapped example_config fragment_JSON (token_endpoint_answers token_issued) (Some ''c0de'') (Some ''st8'')
        (signed_out spent_store)) = 0
   \<and> loadSession fragment_JSON (sessionStorage (signed_out spent_store)) ''pkce_state'' JNull = JStr ''st8''"
  by code_simp

text \<open>
  Claim C1, amended. For every pair of URL parameters and every state of the
  component, two invocations of the redirect-landing handler with the same parameters
  leave exactly the state one invocation leaves, run one after the other or
  overlapping: the second is a no-op. Together they make exactly one token-exchange
  call when both parameters are present and not empty, the state equals the stored
  pending state, the marker of the (state, code) pair is absent or empty, no exchange
  is in flight, the storage accepts the marker, and \<open>loadSession\<close> finds a truthy
  verifier under the key of the state or under the key \<^verbatim>\<open>pkce_verifier\<close>; they make
  no call in every other case. Whenever the handler issues the request, the marker keyed by (state, code) is
  already in the storage of the state the request is issued from, where the request
  log is still the one the handler found, and it is there when the request is in the
  log.
\<close>

theorem landing_twice_one_exchange_iff_launched:
  "twice_sequential C J net code_param state_param s = landing_effect C J net code_param state_param s
   \<and> twice_overlapped C J net code_param state_param s = landing_effect C J net code_param state_param s
   \<and> token_calls C (twice_sequential C J net code_param state_param s)
       = token_calls C s + (if (\<exists>code state marked.
            code_param = Some code \<and> state_param = Some state \<and> code \<noteq> [] \<and> state \<noteq> []
          \<and> loadSession J (sessionStorage s) ''pkce_state'' JNull = JStr state
          \<and> (getItem (sessionStorage s) (''pkce_code_used:'' @ state @ '':'' @ code) = Inr None
             \<or> getItem (sessionStorage s) (''pkce_code_used:'' @ state @ '':'' @ code) = Inr (Some []))
          \<and> \<not> exchangingRef s
          \<and> setItem (sessionStorage s) (''pkce_code_used:'' @ state @ '':'' @ code) ''1'' = Inr marked
          \<and> (truthy (loadSession J (sessionStorage s) (''pkce_verifier:'' @ state) JNull)
             \<or> truthy (loadSession J (sessionStorage s) ''pkce_verifier'' JNull))) then 1 else 0)
   \<and> token_calls C (twice_overlapped C J net code_param state_param s)
       = token_calls C s + (if (\<exists>code state marked.
            code_param = Some code \<and> state_param = Some state \<and> code \<noteq> [] \<and> state \<noteq> []
          \<and> loadSession J (sessionStorage s) ''pkce_state'' JNull = JStr state
          \<and> (getItem (sessionStorage s) (''pkce_code_used:'' @ state @ '':'' @ code) = Inr None
             \<or> getItem (sessionStorage s) (''pkce_code_used:'' @ state @ '':'' @ code) = Inr (Some []))
          \<and> \<not> exchangingRef s
          \<and> setItem (sessionStorage s) (''pkce_code_used:'' @ state @ '':'' @ code) ''1'' = Inr marked
          \<and> (truthy (loadSession J (sessionStorage s) (''pkce_verifier:'' @ state) JNull)
             \<or> truthy (loadSession J (sessionStorage s) ''pkce_verifier'' JNull))) then 1 else 0)
   \<and> (landing_sync C J code_param state_param s = (Started (Some (req, clientIdUsed, state)), a)
       \<longrightarrow> (\<exists>code s1. code_param = Some code \<and> state_param = Some state
              \<and> landing_guard J code_param state_param s = (Launched code state, s1)
              \<and> getItem (sessionStorage s1) (''pkce_code_used:'' @ state @ '':'' @ code) = Inr (Some ''1'')
              \<and> net_log s1 = net_log s
              \<and> exchange_begin C J code state s1 = (Some (req, clientIdUsed), a)
              \<and> net_log a = net_log s @ [req]
              \<and> getItem (sessionStorage a) (''pkce_code_used:'' @ state @ '':'' @ code) = Inr (Some ''1'')))"
proof (intro conjI impI)
  show "twice_sequential C J net code_param state_param s = landing_effect C J net code_param state_param s"
    by (rule twice_sequential_eq)
  show "twice_overlapped C J net code_param state_param s = landing_effect C J net code_param state_param s"
    by (rule twice_overlapped_eq)
  show "token_calls C (twice_sequential C J net code_param state_param s)
       = token_calls C s + (if (\<exists>code state marked.
            code_param = Some code \<and> state_param = Some state \<and> code \<noteq> [] \<and> state \<noteq> []
          \<and> loadSession J (sessionStorage s) ''pkce_state'' JNull = JStr state
          \<and> (getItem (sessionStorage s) (''pkce_code_used:'' @ state @ '':'' @ code) = Inr None
             \<or> getItem (sessionStorage s) (''pkce_code_used:'' @ state @ '':'' @ code) = Inr (Some []))
          \<and> \<not> exchangingRef s
          \<and> setItem (sessionStorage s) (''pkce_code_used:'' @ state @ '':'' @ code) ''1'' = Inr marked
          \<and> (truthy (loadSession J (sessionStorage s) (''pkce_verifier:'' @ state) JNull)
             \<or> truthy (loadSession J (sessionStorage s) ''pkce_verifier'' JNull))) then 1 else 0)"
    unfolding twice_sequential_eq by (rule landing_effect_count)
  show "token_calls C (twice_overlapped C J net code_param state_param s)
       = token_calls C s + (if (\<exists>code state marked.
            code_param = Some code \<and> state_param = Some state \<and> code \<noteq> [] \<and> state \<noteq> []
          \<and> loadSession J (sessionStorage s) ''pkce_state'' JNull = JStr state
          \<and> (getItem (sessionStorage s) (''pkce_code_used:'' @ state @ '':'' @ code) = Inr None
             \<or> getItem (sessionStorage s) (''pkce_code_used:'' @ state @ '':'' @ code) = Inr (Some []))
          \<and> \<not> exchangingRef s
          \<and> setItem (sessionStorage s) (''pkce_code_used:'' @ state @ '':'' @ code) ''1'' = Inr marked
          \<and> (truthy (loadSession J (sessionStorage s) (''pkce_verifier:'' @ state) JNull)
             \<or> truthy (loadSession J (sessionStorage s) ''pkce_verifier'' JNull))) then 1 else 0)"
    unfolding twice_overlapped_eq by (rule landing_effect_count)
next
  assume "landing_sync C J code_param state_param s = (Started (Some (req, clientIdUsed, state)), a)"
  then show "\<exists>code s1. code_param = Some code \<and> state_param = Some state
              \<and> landing_guard J code_param state_param s = (Launched code state, s1)
              \<and> getItem (sessionStorage s1) (''pkce_code_used:'' @ state @ '':'' @ code) = Inr (Some ''1'')
              \<and> net_log s1 = net_log s
              \<and> exchange_begin C J code state s1 = (Some (req, clientIdUsed), a)
              \<and> net_log a = net_log s @ [req]
              \<and> getItem (sessionStorage a) (''pkce_code_used:'' @ state @ '':'' @ code) = Inr (Some ''1'')"
    by (rule landing_sync_marks_first)
qed

theorem landing_twice_one_exchange_iff_launched_witness:
  "token_calls example_config
     (twice_sequential example_config fragment_JSON (token_endpoint_answers token_issued) (Some ''c0de'') (Some ''st8'')
        (signed_out pending_store)) = 1
   \<and> token_calls example_config
     (twice_overlapped example_config fragment_JSON (token_endpoint_answers token_issued) (Some ''c0de'') (Some ''st8'')
        (signed_out pending_store)) = 1
   \<and> token_calls example_config
     (twice_overlapped example_config fragment_JSON (token_endpoint_answers token_issued) (Some ''c0de'') (Some ''st8'')
        (signed_out spent_store)) = 0
   \<and> (\<exists>s1. landing_guard fragment_JSON (Some ''c0de'') (Some ''st8'') (signed_out pending_store)
              = (Launched ''c0de'' ''st8'', s1)
          \<and> getItem (sessionStorage s1) ''pkce_code_used:st8:c0de'' = Inr (Some ''1'')
          \<and> net_log s1 = [])"
proof -
  let ?s = "signed_out pending_store"
  let ?t = "signed_out spent_store"
  let ?net = "token_endpoint_answers token_issued"
  let ?marked = "pending_store\<lparr>items := items pending_store @ [(''pkce_code_used:st8:c0de'', ''1'')]\<rparr>"
  let ?req = "exchange_request example_config ''c0de'' (JStr ''client-1'') (JStr ''ver'')"
  let ?a = "?s\<lparr>exchangingRef := True, sessionStorage := ?marked, net_log := [?req]\<rparr>"
  have h: "Some ''c0de'' = Some ''c0de'' \<and> Some ''st8'' = Some ''st8'' \<and> ''c0de'' \<noteq> [] \<and> ''st8'' \<noteq> []
        \<and> loadSession fragment_JSON (sessionStorage ?s) ''pkce_state'' JNull = JStr ''st8''
        \<and> (getItem (sessionStorage ?s) (''pkce_code_used:'' @ ''st8'' @ '':'' @ ''c0de'') = Inr None
           \<or> getItem (sessionStorage ?s) (''pkce_code_used:'' @ ''st8'' @ '':'' @ ''c0de'') = Inr (Some []))
        \<and> \<not> exchangingRef ?s
        \<and> setItem (sessionStorage ?s) (''pkce_code_used:'' @ ''st8'' @ '':'' @ ''c0de'') ''1'' = Inr ?marked
        \<and> (truthy (loadSession fragment_JSON (sessionStorage ?s) (''pkce_verifier:'' @ ''st8'') JNull)
           \<or> truthy (loadSession fragment_JSON (sessionStorage ?s) ''pkce_verifier'' JNull))"
    by code_simp
  have yes: "(\<exists>code state marked.
            Some ''c0de'' = Some code \<and> Some ''st8'' = Some state \<and> code \<noteq> [] \<and> state \<noteq> []
          \<and> loadSession fragment_JSON (sessionStorage (signed_out pending_store)) ''pkce_state'' JNull = JStr state
          \<and> (getItem (sessionStorage (signed_out pending_store)) (''pkce_code_used:'' @ state @ '':'' @ code) = Inr None
             \<or> getItem (sessionStorage (signed_out pending_store)) (''pkce_code_used:'' @ state @ '':'' @ code) = Inr (Some []))
          \<and> \<not> exchangingRef (signed_out pending_store)
          \<and> setItem (sessionStorage (signed_out pending_store)) (''pkce_code_used:'' @ state @ '':'' @ code) ''1'' = Inr marked
          \<and> (truthy (loadSession fragment_JSON (sessionStorage (signed_out pending_store)) (''pkce_verifier:'' @ state) JNull)
             \<or> truthy (loadSession fragment_JSON (sessionStorage (signed_out pending_store)) ''pkce_verifier'' JNull))) = True"
    using h by blast
  have nv: "\<not> truthy (loadSession fragment_JSON (sessionStorage ?t) (''pkce_verifier:'' @ ''st8'') JNull)
        \<and> \<not> truthy (loadSession fragment_JSON (sessionStorage ?t) ''pkce_verifier'' JNull)"
    by code_simp
  have no: "(\<exists>code state marked.
            Some ''c0de'' = Some code \<and> Some ''st8'' = Some state \<and> code \<noteq> [] \<and> state \<noteq> []
          \<and> loadSession fragment_JSON (sessionStorage (signed_out spent_store)) ''pkce_state'' JNull = JStr state
          \<and> (getItem (sessionStorage (signed_out spent_store)) (''pkce_code_used:'' @ state @ '':'' @ code) = Inr None
             \<or> getItem (sessionStorage (signed_out spent_store)) (''pkce_code_used:'' @ state @ '':'' @ code) = Inr (Some []))
          \<and> \<not> exchangingRef (signed_out spent_store)
          \<and> setItem (sessionStorage (signed_out spent_store)) (''pkce_code_used:'' @ state @ '':'' @ code) ''1'' = Inr marked
          \<and> (truthy (loadSession fragment_JSON (sessionStorage (signed_out spent_store)) (''pkce_verifier:'' @ state) JNull)
             \<or> truthy (loadSession fragment_JSON (sessionStorage (signed_out spent_store)) ''pkce_verifier'' JNull))) = False"
    using nv by auto
  have l: "landing_sync example_config fragment_JSON (Some ''c0de'') (Some ''st8'') ?s
           = (Started (Some (?req, JStr ''client-1'', ''st8'')), ?a)"
    by code_simp
  have z: "token_calls example_config ?s = 0" "token_calls example_config ?t = 0"
          "net_log ?s = []"
    by code_simp+
  note S = landing_twice_one_exchange_iff_launched [where C = example_config and J = fragment_JSON
      and net = ?net and code_param = "Some ''c0de''" and state_param = "Some ''st8''" and s = ?s
      and req = ?req and clientIdUsed = "JStr ''client-1''" and state = "''st8''" and a = ?a,
      unfolded yes if_True]
  note T = landing_twice_one_exchange_iff_launched [where C = example_config and J = fragment_JSON
      and net = ?net and code_param = "Some ''c0de''" and state_param = "Some ''st8''" and s = ?t,
      unfolded no if_False]
  from S have "token_calls example_config
     (twice_sequential example_config fragment_JSON ?net (Some ''c0de'') (Some ''st8'') ?s)
      = token_calls example_config ?s + 1"
    by blast
  then have 1: "token_calls example_config
     (twice_sequential example_config fragment_JSON ?net (Some ''c0de'') (Some ''st8'') ?s) = 1"
    using z(1) by simp
  from S have "token_calls example_config
     (twice_overlapped example_config fragment_JSON ?net (Some ''c0de'') (Some ''st8'') ?s)
      = token_calls example_config ?s + 1"
    by blast
  then have 2: "token_calls example_config
     (twice_overlapped example_config fragment_JSON ?net (Some ''c0de'') (Some ''st8'') ?s) = 1"
    using z(1) by simp
  from T have "token_calls example_config
     (twice_overlapped example_config fragment_JSON ?net (Some ''c0de'') (Some ''st8'') ?t)
      = token_calls example_config ?t + 0"
    by blast
  then have 3: "token_calls example_config
     (twice_overlapped example_config fragment_JSON ?net (Some ''c0de'') (Some ''st8'') ?t) = 0"
    using z(2) by simp
  from S l obtain code s1 where c: "Some ''c0de'' = Some code"
      "landing_guard fragment_JSON (Some ''c0de'') (Some ''st8'') ?s = (Launched code ''st8'', s1)"
      "getItem (sessionStorage s1) (''pkce_code_used:'' @ ''st8'' @ '':'' @ code) = Inr (Some ''1'')"
      "net_log s1 = net_log ?s"
    by blast
  then have 4: "\<exists>s1. landing_guard fragment_JSON (Some ''c0de'') (Some ''st8'') ?s = (Launched ''c0de'' ''st8'', s1)
          \<and> getItem (sessionStorage s1) ''pkce_code_used:st8:c0de'' = Inr (Some ''1'')
          \<and> net_log s1 = []"
    using z(3) by auto
  show ?thesis
    using 1 2 3 4 by blast
qed

section \<open>The outcome of the exchange: claims C6 and C7\<close>

text \<open>
  Claim C6. If the token endpoint answers with a status outside 200..299 (HTTP 400
  with body \<^verbatim>\<open>{"error":"invalid_grant"}\<close>, say), the code exchange fails with an error
  that carries the status and the body: the component's error is set to
  \<^verbatim>\<open>Token exchange failed (<status>). <body>\<close> (with \<^verbatim>\<open>See Network tab.\<close> in place of an
  empty body). The token set is untouched, in the component and in the storage: no
  \<^verbatim>\<open>setTokens\<close> and no save happen on this path.
\<close>

theorem exchange_non_2xx_reports_and_keeps_tokens:
  assumes "exchange_begin C J code state s = (Some (req, clientIdUsed), s1)"
    and "net req = Resolved res"
    and "\<not> ok res"
  shows "error (exchangeCodeForTokens C J net code state s)
           = ''Token exchange failed ('' @ string_of_nat (status res) @ ''). ''
             @ (if body_text res = [] then ''See Network tab.'' else body_text res)
         \<and> tokens (exchangeCodeForTokens C J net code state s) = tokens s
         \<and> sessionStorage (exchangeCodeForTokens C J net code state s) = sessionStorage s"
  using assms exchange_begin_frame [OF assms(1)]
  by (simp add: exchangeCodeForTokens_def exchange_finish_def Let_def)

theorem exchange_non_2xx_reports_and_keeps_tokens_witness:
  "error (exchangeCodeForTokens example_config fragment_JSON (token_endpoint_answers invalid_grant) ''c0de'' ''st8''
       ((signed_out pending_store)\<lparr>tokens := JObj [(''access_token'', JStr ''at-0'')]\<rparr>))
     = ''Token exchange failed (400). '' @ JSON_stringify (JObj [(''error'', JStr ''invalid_grant'')])
   \<and> tokens (exchangeCodeForTokens example_config fragment_JSON (token_endpoint_answers invalid_grant) ''c0de'' ''st8''
       ((signed_out pending_store)\<lparr>tokens := JObj [(''access_token'', JStr ''at-0'')]\<rparr>))
     = JObj [(''access_token'', JStr ''at-0'')]
   \<and> sessionStorage (exchangeCodeForTokens example_config fragment_JSON (token_endpoint_answers invalid_grant) ''c0de'' ''st8''
       ((signed_out pending_store)\<lparr>tokens := JObj [(''access_token'', JStr ''at-0'')]\<rparr>))
     = pending_store"
proof -
  let ?s = "(signed_out pending_store)\<lparr>tokens := JObj [(''access_token'', JStr ''at-0'')]\<rparr>"
  let ?req = "exchange_request example_config ''c0de'' (JStr ''client-1'') (JStr ''ver'')"
  have b: "exchange_begin example_config fragment_JSON ''c0de'' ''st8'' ?s
           = (Some (?req, JStr ''client-1''), ?s\<lparr>net_log := [?req]\<rparr>)"
    by code_simp
  have n: "token_endpoint_answers invalid_grant ?req = Resolved invalid_grant"
    by (simp add: token_endpoint_answers_def)
  have k: "\<not> ok invalid_grant"
    by (simp add: ok_def invalid_grant_def)
  have t: "string_of_nat (status invalid_grant) = ''400''" "body_text invalid_grant \<noteq> []"
    "body_text invalid_grant = JSON_stringify (JObj [(''error'', JStr ''invalid_grant'')])"
    "tokens ?s = JObj [(''access_token'', JStr ''at-0'')]" "sessionStorage ?s = pending_store"
    by code_simp+
  show ?thesis
    using exchange_non_2xx_reports_and_keeps_tokens
        [where net = "token_endpoint_answers invalid_grant", OF b n k] t
    by (simp del: JSON_stringify.simps)
qed

text \<open>
  Claim C7 as stated fails: "after a code exchange completes, successful or failed,
  the verifier, client-id and pending-state entries of that state are removed". After
  a successful exchange the pending-state entry \<^verbatim>\<open>pkce_state\<close> is still stored; after
  a failed one (HTTP 400) the verifier and the client id are still stored too.
\<close>

theorem exchange_keeps_flow_state_counterexample:
  "getItem (sessionStorage (exchangeCodeForTokens example_config fragment_JSON (token_endpoint_answers token_issued)
       ''c0de'' ''st8'' (signed_out pending_store))) ''pkce_state'' = Inr (Some (JSON_stringify (JStr ''st8'')))
   \<and> getItem (sessionStorage (exchangeCodeForTokens example_config fragment_JSON (token_endpoint_answers invalid_grant)
       ''c0de'' ''st8'' (signed_out pending_store))) ''pkce_verifier:st8'' = Inr (Some (JSON_stringify (JStr ''ver'')))
   \<and> getItem (sessionStorage (exchangeCodeForTokens example_config fragment_JSON (token_endpoint_answers invalid_grant)
       ''c0de'' ''st8'' (signed_out pending_store))) ''pkce_client:st8'' = Inr (Some (JSON_stringify (JStr ''client-1'')))"
  by code_simp

lemma exchange_begin_access:
  assumes "exchange_begin C J code state s = (Some (req, cid), s1)"
  shows "\<not> access_denied (sessionStorage s)"
proof
  assume "access_denied (sessionStorage s)"
  then have "\<And>k. loadSession J (sessionStorage s) k JNull = JNull"
    by (rule access_denied_loadSession)
  then show False
    using assms by (auto simp: exchange_begin_def Let_def js_or_def js_and_def split: if_splits)
qed

lemma access_denied_saveSession: "access_denied (saveSession J st k v) = access_denied st"
  by (auto simp: saveSession_def setItem_def split: if_splits option.split)

lemma remove_flow_entries_removes:
  assumes "\<not> access_denied st"
  shows "getItem (remove_flow_entries st state) (''pkce_verifier:'' @ state) = Inr None"
    "getItem (remove_flow_entries st state) (''pkce_client:'' @ state) = Inr None"
  using assms
  by (simp_all add: remove_flow_entries_def removeItem_def getItem_def delete_conv')

text \<open>
  Claim C7, amended. After a code exchange for a given state that succeeds (a 2xx
  answer with a truthy JSON body), the verifier and client-id entries keyed by that
  state are removed from the session store, and the pending-state entry \<^verbatim>\<open>pkce_state\<close>
  is left as it was. After an exchange that fails (the request rejected, a non-2xx
  answer, a body that is not JSON or is falsy) or that never reaches the network (no
  verifier), the session store is left unchanged.
\<close>

theorem exchange_success_removes_verifier_and_client_only:
  "(exchange_begin C J code state s = (Some (req, clientIdUsed), s1) \<and> state \<noteq> []
      \<and> net req = Resolved res \<and> ok res \<and> body_json res = Some j \<and> truthy j
    \<longrightarrow> getItem (sessionStorage (exchangeCodeForTokens C J net code state s)) (''pkce_verifier:'' @ state) = Inr None
        \<and> getItem (sessionStorage (exchangeCodeForTokens C J net code state s)) (''pkce_client:'' @ state) = Inr None
        \<and> getItem (sessionStorage (exchangeCodeForTokens C J net code state s)) ''pkce_state''
            = getItem (sessionStorage s) ''pkce_state'')
   \<and> (exchange_begin C J code state s = (Some (req, clientIdUsed), s1)
      \<and> ((\<exists>e. net req = Rejected e)
           \<or> (\<exists>r. net req = Resolved r
                  \<and> (\<not> ok r \<or> body_json r = None \<or> (\<exists>v. body_json r = Some v \<and> \<not> truthy v))))
    \<longrightarrow> sessionStorage (exchangeCodeForTokens C J net code state s) = sessionStorage s)
   \<and> (exchange_begin C J code state s = (None, s1)
    \<longrightarrow> sessionStorage (exchangeCodeForTokens C J net code state s) = sessionStorage s)"
proof (intro conjI impI)
  assume a: "exchange_begin C J code state s = (Some (req, clientIdUsed), s1) \<and> state \<noteq> []
      \<and> net req = Resolved res \<and> ok res \<and> body_json res = Some j \<and> truthy j"
  then have b: "exchange_begin C J code state s = (Some (req, clientIdUsed), s1)" by simp
  have nd: "\<not> access_denied (sessionStorage s1)"
    using exchange_begin_access [OF b] exchange_begin_frame [OF b] by simp
  let ?st = "saveSession J (sessionStorage s1) ''tokens'' (set_client_id j clientIdUsed)"
  have f: "sessionStorage (exchangeCodeForTokens C J net code state s) = remove_flow_entries ?st state"
    using a by (simp add: exchangeCodeForTokens_def exchange_finish_def Let_def)
  have nd': "\<not> access_denied ?st" using nd by (simp add: access_denied_saveSession)
  show "getItem (sessionStorage (exchangeCodeForTokens C J net code state s)) (''pkce_verifier:'' @ state) = Inr None"
    using remove_flow_entries_removes(1) [OF nd'] f by simp
  show "getItem (sessionStorage (exchangeCodeForTokens C J net code state s)) (''pkce_client:'' @ state) = Inr None"
    using remove_flow_entries_removes(2) [OF nd'] f by simp
  have "getItem (remove_flow_entries ?st state) ''pkce_state'' = getItem ?st ''pkce_state''"
    by (rule getItem_remove_flow_entries_other) simp_all
  also have "\<dots> = getItem (sessionStorage s1) ''pkce_state''"
    by (rule getItem_saveSession_other) simp
  finally show "getItem (sessionStorage (exchangeCodeForTokens C J net code state s)) ''pkce_state''
      = getItem (sessionStorage s) ''pkce_state''"
    using f exchange_begin_frame [OF b] by simp
next
  assume a: "exchange_begin C J code state s = (Some (req, clientIdUsed), s1)
      \<and> ((\<exists>e. net req = Rejected e)
           \<or> (\<exists>r. net req = Resolved r
                  \<and> (\<not> ok r \<or> body_json r = None \<or> (\<exists>v. body_json r = Some v \<and> \<not> truthy v))))"
  then have b: "exchange_begin C J code state s = (Some (req, clientIdUsed), s1)" by simp
  show "sessionStorage (exchangeCodeForTokens C J net code state s) = sessionStorage s"
    using a exchange_begin_frame [OF b]
    by (auto simp: exchangeCodeForTokens_def exchange_finish_def Let_def)
next
  assume b: "exchange_begin C J code state s = (None, s1)"
  show "sessionStorage (exchangeCodeForTokens C J net code state s) = sessionStorage s"
    using b exchange_begin_frame [OF b] by (simp add: exchangeCodeForTokens_def)
qed

theorem exchange_success_removes_verifier_and_client_only_witness:
  "getItem (sessionStorage (exchangeCodeForTokens example_config fragment_JSON (token_endpoint_answers token_issued)
       ''c0de'' ''st8'' (signed_out pending_store))) ''pkce_verifier:st8'' = Inr None
   \<and> getItem (sessionStorage (exchangeCodeForTokens example_config fragment_JSON (token_endpoint_answers token_issued)
       ''c0de'' ''st8'' (signed_out pending_store))) ''pkce_client:st8'' = Inr None
   \<and> sessionStorage (exchangeCodeForTokens example_config fragment_JSON (token_endpoint_answers invalid_grant)
       ''c0de'' ''st8'' (signed_out pending_store)) = pending_store
   \<and> sessionStorage (exchangeCodeForTokens example_config fragment_JSON (token_endpoint_answers token_issued)
       ''c0de'' ''st8'' (signed_out spent_store)) = spent_store"
proof -
  let ?s = "signed_out pending_store"
  let ?req = "exchange_request example_config ''c0de'' (JStr ''client-1'') (JStr ''ver'')"
  have b: "exchange_begin example_config fragment_JSON ''c0de'' ''st8'' ?s
           = (Some (?req, JStr ''client-1''), ?s\<lparr>net_log := [?req]\<rparr>)"
    by code_simp
  have b0: "exchange_begin example_config fragment_JSON ''c0de'' ''st8'' (signed_out spent_store)
           = (None, (signed_out spent_store)\<lparr>error := ''Missing PKCE verifier. Please sign in again.''\<rparr>)"
    by code_simp
  have ok: "ok token_issued" "body_json token_issued = Some (JObj [(''access_token'', JStr ''at-1'')])"
    "truthy (JObj [(''access_token'', JStr ''at-1'')])" "\<not> ok invalid_grant"
    by code_simp+
  have st: "sessionStorage ?s = pending_store" "sessionStorage (signed_out spent_store) = spent_store"
    by (simp_all add: signed_out_def)
  show ?thesis
    using exchange_success_removes_verifier_and_client_only
        [of example_config fragment_JSON "''c0de''" "''st8''" ?s ?req "JStr ''client-1''" "?s\<lparr>net_log := [?req]\<rparr>"
          "token_endpoint_answers token_issued" token_issued "JObj [(''access_token'', JStr ''at-1'')]"]
      exchange_success_removes_verifier_and_client_only
        [of example_config fragment_JSON "''c0de''" "''st8''" ?s ?req "JStr ''client-1''" "?s\<lparr>net_log := [?req]\<rparr>"
          "token_endpoint_answers invalid_grant"]
      exchange_success_removes_verifier_and_client_only
        [of example_config fragment_JSON "''c0de''" "''st8''" "signed_out spent_store" _ _
          "(signed_out spent_store)\<lparr>error := ''Missing PKCE verifier. Please sign in again.''\<rparr>"
          "token_endpoint_answers token_issued"]
      b b0 ok st
    by (simp add: token_endpoint_answers_def)
qed

section \<open>fetchVehicles: claim C10\<close>

text \<open>
  Claim C10. \<open>fetchVehicles\<close> never rejects because of an HTTP error or a malformed
  body: whenever \<^verbatim>\<open>fetch\<close> resolves, it resolves. For every response that is HTTP 204,
  not OK, not JSON, or JSON of an unrecognized shape (not an array, and with no array
  under \<^verbatim>\<open>vehicles\<close> or \<^verbatim>\<open>list\<close>), the result is the built-in list \<open>mockVehicles\<close> of three
  vehicles, the very result a caller gets from a backend that answers with exactly
  those three vehicles.
\<close>

theorem fetchVehicles_falls_back_to_mock:
  assumes "net (vehicles_request C accessToken) = Resolved res"
  shows "(\<exists>vehicles. fetchVehicles C net accessToken = Inr vehicles)
     \<and> (status res = 204 \<or> \<not> ok res \<or> body_json res = None
          \<or> (\<exists>data. body_json res = Some data \<and> \<not> Array_isArray (Some data)
                \<and> \<not> Array_isArray (member data ''vehicles'') \<and> \<not> Array_isArray (member data ''list''))
        \<longrightarrow> fetchVehicles C net accessToken = Inr mockVehicles)
     \<and> (status res \<noteq> 204 \<and> ok res \<and> body_json res = Some mockVehicles
        \<longrightarrow> fetchVehicles C net accessToken = Inr mockVehicles)
     \<and> (\<exists>first second third. mockVehicles = JArr [first, second, third])"
proof -
  have isArr: "\<And>v. Array_isArray v \<longleftrightarrow> (\<exists>xs. v = Some (JArr xs))"
    by (auto simp: Array_isArray_def split: option.split json.split)
  have r: "fetchVehicles C net accessToken =
      (if status res = 204 then Inr mockVehicles
       else if \<not> ok res then Inr mockVehicles
       else
         (case body_json res of
            None \<Rightarrow> Inr mockVehicles
          | Some data \<Rightarrow>
              if \<not> truthy data then Inr mockVehicles
              else if Array_isArray (Some data) then Inr data
              else
                (case member data ''vehicles'' of
                   Some (JArr vehicles) \<Rightarrow> Inr (JArr vehicles)
                 | _ \<Rightarrow>
                     (case member data ''list'' of
                        Some (JArr list) \<Rightarrow> Inr (JArr list)
                      | _ \<Rightarrow> Inr mockVehicles))))"
    using assms by (simp add: fetchVehicles_def)
  have 1: "\<exists>vehicles. fetchVehicles C net accessToken = Inr vehicles"
    unfolding r by (simp split: option.split json.split)
  have 2: "fetchVehicles C net accessToken = Inr mockVehicles"
    if "status res = 204 \<or> \<not> ok res \<or> body_json res = None
          \<or> (\<exists>data. body_json res = Some data \<and> \<not> Array_isArray (Some data)
                \<and> \<not> Array_isArray (member data ''vehicles'') \<and> \<not> Array_isArray (member data ''list''))"
    using that unfolding r isArr by (auto split: option.split json.split)
  have t: "truthy mockVehicles" "Array_isArray (Some mockVehicles)"
    by (simp_all add: mockVehicles_def Array_isArray_def)
  have 3: "fetchVehicles C net accessToken = Inr mockVehicles"
    if "status res \<noteq> 204 \<and> ok res \<and> body_json res = Some mockVehicles"
    using that t unfolding r by simp
  have 4: "\<exists>first second third. mockVehicles = JArr [first, second, third]"
    unfolding mockVehicles_def by blast
  show ?thesis using 1 2 3 4 by blast
qed

theorem fetchVehicles_falls_back_to_mock_witness:
  "fetchVehicles example_config (\<lambda>req. Resolved backend_down) ''at-1'' = Inr mockVehicles
   \<and> fetchVehicles example_config (\<lambda>req. Resolved no_content) ''at-1'' = Inr mockVehicles
   \<and> fetchVehicles example_config (\<lambda>req. Resolved html_page) ''at-1'' = Inr mockVehicles
   \<and> fetchVehicles example_config (\<lambda>req. Resolved other_shape) ''at-1'' = Inr mockVehicles
   \<and> fetchVehicles example_config (\<lambda>req. Resolved owns_the_mock_vehicles) ''at-1'' = Inr mockVehicles"
proof -
  have 1: "\<not> ok backend_down" by (simp add: ok_def backend_down_def)
  have 2: "status no_content = 204" by (simp add: no_content_def)
  have 3: "body_json html_page = None" by (simp add: html_page_def)
  have 4: "\<exists>data. body_json other_shape = Some data \<and> \<not> Array_isArray (Some data)
                \<and> \<not> Array_isArray (member data ''vehicles'') \<and> \<not> Array_isArray (member data ''list'')"
    by (simp add: other_shape_def Array_isArray_def member_def)
  have 5: "status owns_the_mock_vehicles \<noteq> 204 \<and> ok owns_the_mock_vehicles
      \<and> body_json owns_the_mock_vehicles = Some mockVehicles"
    by (simp add: owns_the_mock_vehicles_def ok_def)
  have a: "fetchVehicles example_config (\<lambda>req. Resolved backend_down) ''at-1'' = Inr mockVehicles"
    using fetchVehicles_falls_back_to_mock [where net = "\<lambda>req. Resolved backend_down" and res = backend_down
        and C = example_config and accessToken = "''at-1''"] 1 by blast
  have b: "fetchVehicles example_config (\<lambda>req. Resolved no_content) ''at-1'' = Inr mockVehicles"
    using fetchVehicles_falls_back_to_mock [where net = "\<lambda>req. Resolved no_content" and res = no_content
        and C = example_config and accessToken = "''at-1''"] 2 by blast
  have c: "fetchVehicles example_config (\<lambda>req. Resolved html_page) ''at-1'' = Inr mockVehicles"
    using fetchVehicles_falls_back_to_mock [where net = "\<lambda>req. Resolved html_page" and res = html_page
        and C = example_config and accessToken = "''at-1''"] 3 by blast
  have d: "fetchVehicles example_config (\<lambda>req. Resolved other_shape) ''at-1'' = Inr mockVehicles"
    using fetchVehicles_falls_back_to_mock [where net = "\<lambda>req. Resolved other_shape" and res = other_shape
        and C = example_config and accessToken = "''at-1''"] 4 by blast
  have e: "fetchVehicles example_config (\<lambda>req. Resolved owns_the_mock_vehicles) ''at-1'' = Inr mockVehicles"
    using fetchVehicles_falls_back_to_mock [where net = "\<lambda>req. Resolved owns_the_mock_vehicles"
        and res = owns_the_mock_vehicles and C = example_config and accessToken = "''at-1''"] 5 by blast
  show ?thesis using a b c d e by blast
qed

section \<open>submitOtp: claims C3 and C2\<close>

lemma not_code_exchange_authn: "\<not> is_code_exchange C (authn_request r f a v)"
  by (simp add: is_code_exchange_def authn_request_def)

lemma not_code_exchange_buy: "\<not> is_code_exchange C (buy_request C' v q b)"
  by (simp add: is_code_exchange_def buy_request_def)

lemma code_exchange_stepup: "is_code_exchange C (stepup_token_request C code)"
  by (simp add: is_code_exchange_def stepup_token_request_def)

lemma buy_insurance_frame:
  assumes "buy_insurance C net closure s = (e, s')"
  shows "filter (is_code_exchange C) (net_log s') = filter (is_code_exchange C) (net_log s)"
    "tokens s' = tokens s" "sessionStorage s' = sessionStorage s"
  using assms
  by (auto simp: buy_insurance_def fetch_def Let_def not_code_exchange_buy
      split: sum.splits if_splits fetch_result.splits)

lemma stepup_exchange_calls:
  assumes "stepup_exchange C J net code s = (e, s')"
  shows "net_log s' = net_log s @ [stepup_token_request C code]"
  using assms
  by (auto simp: stepup_exchange_def fetch_def Let_def split: if_splits fetch_result.splits)

text \<open>
  Claim C3. Take a submission that is made (an OTP was entered, the flow and
  authenticator identifiers are located) and answered 2xx with a JSON body whose
  \<^verbatim>\<open>flowStatus\<close> is \<^verbatim>\<open>"SUCCESS_COMPLETED"\<close>. If \<^verbatim>\<open>authData.code\<close> is present (truthy, the test
  of the source), exactly one token-exchange call follows, and its \<^verbatim>\<open>client_id\<close> is
  \<^verbatim>\<open>CLIENT_ID2\<close>. If there is no such code, no token-exchange call is made and the token
  set is not rotated, in the component or in the storage.
\<close>

theorem submitOtp_exchanges_once_with_CLIENT_ID2_iff_code:
  assumes "otpValue s \<noteq> []" and "truthy (otpResponse s)"
    and "truthy (flowId_of (otpResponse s))" and "truthy (submitOtp_authenticatorId (otpResponse s))"
    and "net (authn_request (otpResponse s) (flowId_of (otpResponse s))
                (submitOtp_authenticatorId (otpResponse s)) (otpValue s)) = Resolved res"
    and "ok res" and "body_json res = Some json"
    and "opt_member (Some json) ''flowStatus'' = Some (JStr ''SUCCESS_COMPLETED'')"
  shows "(truthy_opt (opt_member (opt_member (Some json) ''authData'') ''code'') \<longrightarrow>
           filter (is_code_exchange C) (net_log (submitOtp C J net s))
             = filter (is_code_exchange C) (net_log s)
               @ [stepup_token_request C (opt_member (opt_member (Some json) ''authData'') ''code'')]
           \<and> token_calls C (submitOtp C J net s) = token_calls C s + 1
           \<and> req_body (stepup_token_request C (opt_member (opt_member (Some json) ''authData'') ''code''))
               = Form [(''grant_type'', ''authorization_code''),
                       (''code'', js_String_opt (opt_member (opt_member (Some json) ''authData'') ''code'')),
                       (''redirect_uri'', REDIRECT_URI C),
                       (''client_id'', CLIENT_ID2 C)])
       \<and> (\<not> truthy_opt (opt_member (opt_member (Some json) ''authData'') ''code'') \<longrightarrow>
           token_calls C (submitOtp C J net s) = token_calls C s
           \<and> tokens (submitOtp C J net s) = tokens s
           \<and> sessionStorage (submitOtp C J net s) = sessionStorage s)"
proof -
  let ?code = "opt_member (opt_member (Some json) ''authData'') ''code''"
  let ?req = "authn_request (otpResponse s) (flowId_of (otpResponse s))
                (submitOtp_authenticatorId (otpResponse s)) (otpValue s)"
  let ?s0 = "s\<lparr>otpError := None, otpRequesting := True\<rparr>"
  let ?s1 = "?s0\<lparr>net_log := net_log s @ [?req]\<rparr>"
  let ?s2 = "?s1\<lparr>otpResponse := json\<rparr>"
  obtain e t where t: "submitOtp_try C J net s (flowId_of (otpResponse s))
      (submitOtp_authenticatorId (otpResponse s)) ?s0 = (e, t)"
    by (cases "submitOtp_try C J net s (flowId_of (otpResponse s))
      (submitOtp_authenticatorId (otpResponse s)) ?s0")
  have fin: "net_log (submitOtp C J net s) = net_log t" "tokens (submitOtp C J net s) = tokens t"
    "sessionStorage (submitOtp C J net s) = sessionStorage t"
    using assms(1-4) t by (auto simp: submitOtp_def Let_def split: option.splits)
  have j: "json_or_null res = json" using assms(7) by (simp add: json_or_null_def)
  show ?thesis
  proof (intro conjI impI)
    assume c: "truthy_opt ?code"
    obtain e3 s3 where x: "stepup_exchange C J net ?code ?s2 = (e3, s3)"
      by (cases "stepup_exchange C J net ?code ?s2")
    have l3: "net_log s3 = net_log s @ [?req, stepup_token_request C ?code]"
      using stepup_exchange_calls [OF x] by simp
    have "filter (is_code_exchange C) (net_log t)
          = filter (is_code_exchange C) (net_log s) @ [stepup_token_request C ?code]"
    proof (cases e3)
      case None
      then have "buy_insurance C net s (s3\<lparr>otpVisible := False, otpValue := []\<rparr>) = (e, t)"
        using t assms(5,6,8) j c x by (simp add: submitOtp_try_def fetch_def Let_def)
      from buy_insurance_frame(1) [OF this] show ?thesis
        using l3 by (simp add: not_code_exchange_authn code_exchange_stepup)
    next
      case (Some err)
      then have "t = s3"
        using t assms(5,6,8) j c x by (simp add: submitOtp_try_def fetch_def Let_def)
      then show ?thesis
        using l3 by (simp add: not_code_exchange_authn code_exchange_stepup)
    qed
    then show "filter (is_code_exchange C) (net_log (submitOtp C J net s))
        = filter (is_code_exchange C) (net_log s) @ [stepup_token_request C ?code]"
      and "token_calls C (submitOtp C J net s) = token_calls C s + 1"
      using fin by (simp_all add: token_calls_def)
    show "req_body (stepup_token_request C ?code)
               = Form [(''grant_type'', ''authorization_code''),
                       (''code'', js_String_opt ?code),
                       (''redirect_uri'', REDIRECT_URI C),
                       (''client_id'', CLIENT_ID2 C)]"
      by (simp add: stepup_token_request_def)
  next
    assume c: "\<not> truthy_opt ?code"
    have b: "buy_insurance C net s (?s2\<lparr>otpVisible := False, otpValue := []\<rparr>) = (e, t)"
      using t assms(5,6,8) j c by (simp add: submitOtp_try_def fetch_def Let_def)
    note f = buy_insurance_frame [OF b]
    show "token_calls C (submitOtp C J net s) = token_calls C s"
      using f(1) fin by (simp add: token_calls_def not_code_exchange_authn)
    show "tokens (submitOtp C J net s) = tokens s" using f(2) fin by simp
    show "sessionStorage (submitOtp C J net s) = sessionStorage s" using f(3) fin by simp
  qed
qed

text \<open>
  Claim C2 fails on the code. The OTP verification completes with an embedded code,
  the code is exchanged for a new token set (access token \<^verbatim>\<open>at-1\<close>), which becomes the
  component's token set, and the buy-insurance request that follows carries
  \<^verbatim>\<open>Bearer at-0\<close>, the access token from before the step-up: \<open>submitOtp\<close> reads \<^verbatim>\<open>tokens\<close>,
  the constant of the render that created it.
\<close>

theorem submitOtp_buys_with_stale_token:
  "map (\<lambda>r. map_of (req_headers r) ''Authorization'')
       (filter (\<lambda>r. req_body r = NoBody)
          (net_log (submitOtp example_config fragment_JSON (answers otp_completed token_issued policy_issued) awaiting_otp)))
     = [Some ''Bearer at-0'']
   \<and> member (tokens (submitOtp example_config fragment_JSON (answers otp_completed token_issued policy_issued) awaiting_otp))
        ''access_token'' = Some (JStr ''at-1'')
   \<and> member (tokens awaiting_otp) ''access_token'' = Some (JStr ''at-0'')
   \<and> token_calls example_config
        (submitOtp example_config fragment_JSON (answers otp_completed token_issued policy_issued) awaiting_otp) = 1
   \<and> purchaseSuccess (submitOtp example_config fragment_JSON (answers otp_completed token_issued policy_issued) awaiting_otp)"
  by code_simp

theorem submitOtp_exchanges_once_with_CLIENT_ID2_iff_code_witness:
  "token_calls example_config
     (submitOtp example_config fragment_JSON (answers otp_completed token_issued policy_issued) awaiting_otp) = 1
   \<and> filter (is_code_exchange example_config)
       (net_log (submitOtp example_config fragment_JSON (answers otp_completed token_issued policy_issued) awaiting_otp))
     = [stepup_token_request example_config (Some (JStr ''c-2''))]
   \<and> map_of [(''grant_type'', ''authorization_code''), (''code'', ''c-2''),
              (''redirect_uri'', REDIRECT_URI example_config), (''client_id'', CLIENT_ID2 example_config)]
        ''client_id'' = Some ''client-2''
   \<and> token_calls example_config
       (submitOtp example_config fragment_JSON (answers otp_completed_without_code token_issued policy_issued) awaiting_otp) = 0
   \<and> tokens (submitOtp example_config fragment_JSON (answers otp_completed_without_code token_issued policy_issued) awaiting_otp)
       = tokens awaiting_otp"
proof -
  let ?with = "JObj [(''flowStatus'', JStr ''SUCCESS_COMPLETED''), (''authData'', JObj [(''code'', JStr ''c-2'')])]"
  let ?without = "JObj [(''flowStatus'', JStr ''SUCCESS_COMPLETED'')]"
  have s: "otpValue awaiting_otp \<noteq> []" "truthy (otpResponse awaiting_otp)"
    "truthy (flowId_of (otpResponse awaiting_otp))"
    "truthy (submitOtp_authenticatorId (otpResponse awaiting_otp))"
    by code_simp+
  have n1: "answers otp_completed token_issued policy_issued
       (authn_request (otpResponse awaiting_otp) (flowId_of (otpResponse awaiting_otp))
          (submitOtp_authenticatorId (otpResponse awaiting_otp)) (otpValue awaiting_otp))
     = Resolved otp_completed"
    by (simp add: answers_def authn_request_def)
  have n2: "answers otp_completed_without_code token_issued policy_issued
       (authn_request (otpResponse awaiting_otp) (flowId_of (otpResponse awaiting_otp))
          (submitOtp_authenticatorId (otpResponse awaiting_otp)) (otpValue awaiting_otp))
     = Resolved otp_completed_without_code"
    by (simp add: answers_def authn_request_def)
  have r1: "ok otp_completed" "body_json otp_completed = Some ?with"
    "opt_member (Some ?with) ''flowStatus'' = Some (JStr ''SUCCESS_COMPLETED'')"
    "opt_member (opt_member (Some ?with) ''authData'') ''code'' = Some (JStr ''c-2'')"
    "truthy_opt (Some (JStr ''c-2''))"
    by code_simp+
  have r2: "ok otp_completed_without_code" "body_json otp_completed_without_code = Some ?without"
    "opt_member (Some ?without) ''flowStatus'' = Some (JStr ''SUCCESS_COMPLETED'')"
    "opt_member (opt_member (Some ?without) ''authData'') ''code'' = None"
    "\<not> truthy_opt None"
    by code_simp+
  have z: "token_calls example_config awaiting_otp = 0" "net_log awaiting_otp = []"
    "CLIENT_ID2 example_config = ''client-2''"
    by code_simp+
  have a: "token_calls example_config
       (submitOtp example_config fragment_JSON (answers otp_completed token_issued policy_issued) awaiting_otp) = 1
     \<and> filter (is_code_exchange example_config)
       (net_log (submitOtp example_config fragment_JSON (answers otp_completed token_issued policy_issued) awaiting_otp))
       = [stepup_token_request example_config (Some (JStr ''c-2''))]"
    using submitOtp_exchanges_once_with_CLIENT_ID2_iff_code
        [where net = "answers otp_completed token_issued policy_issued" and C = example_config,
          OF s n1 r1(1,2,3)] r1(4,5) z
    by simp
  have b: "token_calls example_config
       (submitOtp example_config fragment_JSON (answers otp_completed_without_code token_issued policy_issued) awaiting_otp) = 0
     \<and> tokens (submitOtp example_config fragment_JSON (answers otp_completed_without_code token_issued policy_issued) awaiting_otp)
       = tokens awaiting_otp"
    using submitOtp_exchanges_once_with_CLIENT_ID2_iff_code
        [where net = "answers otp_completed_without_code token_issued policy_issued" and C = example_config,
          OF s n2 r2(1,2,3)] r2(4,5) z
    by simp
  show ?thesis using a b z(3) by simp
qed

section \<open>startEmailOtp and submitOtp: claim C4\<close>

lemma first_truthy_cases: "truthy (first_truthy vs d) \<or> first_truthy vs d = d"
  by (induction vs d rule: first_truthy.induct) auto

lemma first_truthy_none:
  "\<forall>v \<in> set vs. \<not> truthy_opt v \<Longrightarrow> first_truthy vs d = d"
  by (induction vs d rule: first_truthy.induct) (auto simp: truthy_opt_def)

lemma first_truthy_not_truthy:
  "\<not> truthy (first_truthy vs d) \<Longrightarrow> v \<in> set vs \<Longrightarrow> \<not> truthy_opt v"
  by (induction vs d rule: first_truthy.induct) (auto simp: truthy_opt_def split: if_splits)

lemma first_truthy_again:
  assumes "set ms' \<subseteq> set ms"
  shows "first_truthy (Some (first_truthy ms JNull) # ms') JNull = first_truthy ms JNull"
proof (cases "truthy (first_truthy ms JNull)")
  case True
  then show ?thesis by simp
next
  case False
  then have n: "first_truthy ms JNull = JNull"
    using first_truthy_cases [of ms JNull] by simp
  have "\<forall>v \<in> set ms'. \<not> truthy_opt v"
    using first_truthy_not_truthy [OF False] assms by blast
  then have "first_truthy ms' JNull = JNull" by (rule first_truthy_none)
  then show ?thesis using False n by simp
qed

lemma map_of_rev_replace:
  "map_of (rev (map (\<lambda>(k, w). if k = name then (k, v) else (k, w)) kvs)) n
   = (if n = name then (if name \<in> set (map fst kvs) then Some v else None) else map_of (rev kvs) n)"
proof (induction kvs)
  case Nil
  show ?case by simp
next
  case (Cons p kvs)
  obtain k w where p: "p = (k, w)" by (cases p)
  show ?case
    using Cons p by (cases "k = name") (auto simp: map_add_def split: option.split)
qed

text \<open>After an assignment the member reads as the value assigned, every other member as before.\<close>

lemma map_of_rev_set_member:
  "map_of (rev (set_member name v kvs)) n = (if n = name then Some v else map_of (rev kvs) n)"
  by (auto simp: set_member_def map_of_rev_replace map_of_eq_None_iff image_iff)

lemma map_of_rev_assign_members_other:
  "n \<notin> set (map fst ms) \<Longrightarrow> map_of (rev (assign_members kvs ms)) n = map_of (rev kvs) n"
  unfolding assign_members_def
  by (induction ms arbitrary: kvs) (auto simp: map_of_rev_set_member)

lemma spread_keys:
  assumes "\<And>kvs. res \<noteq> JObj kvs" "(k, v) \<in> set (spread res)"
  shows "\<exists>i. k = string_of_nat i"
proof (cases res)
  case (JArr xs)
  then have "(k, v) \<in> set (zip (map string_of_nat [0..<length xs]) xs)"
    using assms(2) by (simp add: spread_def)
  then have "k \<in> set (map string_of_nat [0..<length xs])" by (rule set_zip_leftD)
  then show ?thesis by auto
next
  case (JStr str)
  then have "(k, v) \<in> set (zip (map string_of_nat [0..<length str]) (map (\<lambda>c. JStr [c]) str))"
    using assms(2) by (simp add: spread_def)
  then have "k \<in> set (map string_of_nat [0..<length str])" by (rule set_zip_leftD)
  then show ?thesis by auto
qed (use assms in \<open>simp_all add: spread_def\<close>)

lemma map_of_spread_name:
  assumes "name \<noteq> []" "\<not> is_digit (hd name)"
  shows "map_of (rev (spread res)) name = member res name"
proof (cases "\<exists>kvs. res = JObj kvs")
  case True
  then show ?thesis by (auto simp: spread_def member_def)
next
  case False
  have "name \<notin> fst ` set (rev (spread res))"
  proof
    assume "name \<in> fst ` set (rev (spread res))"
    then obtain v where "(name, v) \<in> set (spread res)" by auto
    then obtain i where "name = string_of_nat i"
      using spread_keys [of res name v] False by blast
    then show False using assms(2) hd_string_of_nat_digit by simp
  qed
  then have "map_of (rev (spread res)) name = None"
    by (simp add: map_of_eq_None_iff)
  moreover have "member res name = None"
    using False by (cases res) (simp_all add: member_def)
  ultimately show ?thesis by simp
qed

lemma opt_member_Some: "opt_member (Some res) name = member res name"
  by (cases res) (simp_all add: opt_member_def member_def)

lemma member_normalized_other:
  assumes "name \<noteq> ''flowId''" "name \<noteq> ''authenticatorId''" "name \<noteq> ''authnHref''"
    and "name \<noteq> []" "\<not> is_digit (hd name)"
  shows "opt_member (Some (normalized_response res f a h)) name = opt_member (Some res) name"
  using assms map_of_spread_name [OF assms(4,5), of res]
  by (simp add: opt_member_Some normalized_response_def member_def map_of_rev_assign_members_other)

lemma member_normalized_set:
  "opt_member (Some (normalized_response res f a h)) ''flowId'' = Some f"
  "opt_member (Some (normalized_response res f a h)) ''authenticatorId'' = Some a"
  "opt_member (Some (normalized_response res f a h)) ''authnHref'' = Some h"
  by (simp_all add: opt_member_Some member_def normalized_response_def assign_members_def
      map_of_rev_set_member)

lemma letters_not_digits:
  "\<not> is_digit (CHR ''f'')" "\<not> is_digit (CHR ''s'')" "\<not> is_digit (CHR ''n'')" "\<not> is_digit (CHR ''a'')"
  by (simp_all add: is_digit_def)

lemma flowId_of_normalized:
  "flowId_of (normalized_response res (flowId_of res) a h) = flowId_of res"
proof -
  let ?ms = "[opt_member (Some res) ''flowId'', opt_member (Some res) ''flowID'',
        opt_member (Some res) ''sessionDataKey'', opt_member (Some res) ''sessionDataKeyConsent'',
        opt_member (Some res) ''sessionState'']"
  have "flowId_of (normalized_response res (flowId_of res) a h)
        = first_truthy (Some (first_truthy ?ms JNull) # tl ?ms) JNull"
    by (simp add: flowId_of_def member_normalized_set member_normalized_other letters_not_digits
        del: first_truthy.simps)
  also have "\<dots> = first_truthy ?ms JNull"
    by (rule first_truthy_again) auto
  finally show ?thesis by (simp add: flowId_of_def)
qed

lemma submitOtp_authenticatorId_normalized:
  "submitOtp_authenticatorId (normalized_response res f (startEmailOtp_authenticatorId res) h)
   = startEmailOtp_authenticatorId res"
proof -
  let ?n1 = "opt_member (opt_first (opt_member (opt_member (Some res) ''nextStep'') ''authenticators'')) ''authenticatorId''"
  let ?a2 = "opt_member (Some res) ''authenticatorId''"
  let ?rest = "[opt_member (opt_first (opt_member (Some res) ''authenticators'')) ''authenticatorId'',
        opt_member (opt_first (opt_member (Some res) ''authenticators'')) ''id'',
        opt_member (opt_first (opt_member (opt_member (Some res) ''authenticate'') ''authenticators'')) ''id'',
        opt_member (opt_first (opt_member (opt_member (Some res) ''stepInfo'') ''options'')) ''authenticatorId'',
        opt_member (opt_first (opt_member (opt_member (Some res) ''stepInfo'') ''options'')) ''id'']"
  have "submitOtp_authenticatorId (normalized_response res f (startEmailOtp_authenticatorId res) h)
        = first_truthy (Some (first_truthy (?n1 # ?a2 # ?rest) JNull) # ?n1 # ?rest) JNull"
    by (simp add: submitOtp_authenticatorId_def startEmailOtp_authenticatorId_def
        member_normalized_set member_normalized_other letters_not_digits
        del: first_truthy.simps)
  also have "\<dots> = first_truthy (?n1 # ?a2 # ?rest) JNull"
    by (rule first_truthy_again) auto
  finally show ?thesis by (simp add: startEmailOtp_authenticatorId_def)
qed

text \<open>
  Claim C4 as stated fails: "when no flow identifier and no authenticator identifier
  can be located, \<open>startEmailOtp\<close> fails the attempt rather than presenting the OTP entry
  step". For the response \<^verbatim>\<open>{}\<close> neither identifier is located, and \<open>startEmailOtp\<close> sets
  no error and shows the OTP entry step.
\<close>

theorem startEmailOtp_empty_response_counterexample:
  "otpVisible (startEmailOtp (Inr (JObj [])) (signed_out roomy_storage))
   \<and> otpError (startEmailOtp (Inr (JObj [])) (signed_out roomy_storage)) = None
   \<and> flowId_of (JObj []) = JNull \<and> startEmailOtp_authenticatorId (JObj []) = JNull"
  by code_simp

text \<open>
  Claim C4, amended. For every step-up authorization response in which no flow
  identifier or no authenticator identifier can be located, \<open>startEmailOtp\<close> does not
  fail on that account: it stores the response normalized (the missing identifier as
  \<^verbatim>\<open>null\<close>), sets no error and presents the OTP entry step. The attempt ends in
  \<open>submitOtp\<close>: once an OTP is entered it sets the error \<^verbatim>\<open>Unable to locate flowId in
  authorize response\<close> (or the one for the authenticator identifier, when only that is
  missing) and issues no request. \<open>startEmailOtp\<close> itself fails, hiding the OTP step,
  only when probing the response throws (a \<^verbatim>\<open>links\<close> object with a member \<^verbatim>\<open>find\<close>) or
  \<^verbatim>\<open>emailOtpFlow\<close> does.
\<close>

theorem startEmailOtp_defers_missing_identifiers_to_submitOtp:
  "(authnHref_of res = Inr authnHref
      \<and> (\<not> truthy (flowId_of res) \<or> \<not> truthy (startEmailOtp_authenticatorId res))
    \<longrightarrow> otpVisible (startEmailOtp (Inr res) s)
        \<and> otpError (startEmailOtp (Inr res) s) = None
        \<and> otpResponse (startEmailOtp (Inr res) s)
            = normalized_response res (flowId_of res) (startEmailOtp_authenticatorId res) authnHref
        \<and> (otp \<noteq> [] \<longrightarrow>
             otpError (submitOtp C J net ((startEmailOtp (Inr res) s)\<lparr>otpValue := otp\<rparr>))
               = Some (if \<not> truthy (flowId_of res)
                       then ''Unable to locate flowId in authorize response''
                       else ''Unable to locate authenticatorId in authorize response'')
             \<and> net_log (submitOtp C J net ((startEmailOtp (Inr res) s)\<lparr>otpValue := otp\<rparr>)) = net_log s))
   \<and> (authnHref_of res = Inl e
    \<longrightarrow> \<not> otpVisible (startEmailOtp (Inr res) s)
        \<and> otpError (startEmailOtp (Inr res) s) = Some (message_or_String e))"
proof (intro conjI impI)
  assume a: "authnHref_of res = Inr authnHref
      \<and> (\<not> truthy (flowId_of res) \<or> \<not> truthy (startEmailOtp_authenticatorId res))"
  let ?n = "normalized_response res (flowId_of res) (startEmailOtp_authenticatorId res) authnHref"
  let ?s' = "startEmailOtp (Inr res) s"
  have st: "?s' = s\<lparr>otpError := None, otpResponse := ?n, otpRequesting := False, otpVisible := True\<rparr>"
    using a by (simp add: startEmailOtp_def Let_def)
  show "otpVisible ?s'" "otpError ?s' = None" "otpResponse ?s' = ?n"
    by (simp_all add: st)
  {
    assume o: "otp \<noteq> []"
    have t: "truthy ?n" by (simp add: normalized_response_def)
    have f: "flowId_of ?n = flowId_of res" by (rule flowId_of_normalized)
    have g: "submitOtp_authenticatorId ?n = startEmailOtp_authenticatorId res"
      by (rule submitOtp_authenticatorId_normalized)
    have sub: "submitOtp C J net (?s'\<lparr>otpValue := otp\<rparr>)
        = (?s'\<lparr>otpValue := otp\<rparr>)\<lparr>otpError := Some (if \<not> truthy (flowId_of res)
                       then ''Unable to locate flowId in authorize response''
                       else ''Unable to locate authenticatorId in authorize response'')\<rparr>"
      using a o t f g by (auto simp: submitOtp_def Let_def st)
    show "otpError (submitOtp C J net (?s'\<lparr>otpValue := otp\<rparr>))
               = Some (if \<not> truthy (flowId_of res)
                       then ''Unable to locate flowId in authorize response''
                       else ''Unable to locate authenticatorId in authorize response'')"
      by (simp only: sub) simp
    show "net_log (submitOtp C J net (?s'\<lparr>otpValue := otp\<rparr>)) = net_log s"
      by (simp only: sub) (simp add: st)
  }
next
  assume "authnHref_of res = Inl e"
  then show "\<not> otpVisible (startEmailOtp (Inr res) s)"
    "otpError (startEmailOtp (Inr res) s) = Some (message_or_String e)"
    by (simp_all add: startEmailOtp_def Let_def)
qed

theorem startEmailOtp_defers_missing_identifiers_to_submitOtp_witness:
  "otpVisible (startEmailOtp (Inr (JObj [(''status'', JStr ''PENDING'')])) (signed_out roomy_storage))
   \<and> otpError (submitOtp example_config fragment_JSON (answers otp_completed token_issued policy_issued)
        ((startEmailOtp (Inr (JObj [(''status'', JStr ''PENDING'')])) (signed_out roomy_storage))
           \<lparr>otpValue := ''123456''\<rparr>))
       = Some ''Unable to locate flowId in authorize response''
   \<and> net_log (submitOtp example_config fragment_JSON (answers otp_completed token_issued policy_issued)
        ((startEmailOtp (Inr (JObj [(''status'', JStr ''PENDING'')])) (signed_out roomy_storage))
           \<lparr>otpValue := ''123456''\<rparr>)) = []
   \<and> otpError (submitOtp example_config fragment_JSON (answers otp_completed token_issued policy_issued)
        ((startEmailOtp (Inr (JObj [(''flowId'', JStr ''f-1'')])) (signed_out roomy_storage))
           \<lparr>otpValue := ''123456''\<rparr>))
       = Some ''Unable to locate authenticatorId in authorize response''
   \<and> \<not> otpVisible (startEmailOtp (Inr (JObj [(''links'', JObj [(''find'', JNum 1)])])) (signed_out roomy_storage))"
proof -
  let ?r1 = "JObj [(''status'', JStr ''PENDING'')]"
  let ?r2 = "JObj [(''flowId'', JStr ''f-1'')]"
  let ?r3 = "JObj [(''links'', JObj [(''find'', JNum 1)])]"
  let ?net = "answers otp_completed token_issued policy_issued"
  have h1: "authnHref_of ?r1 = Inr JNull" "\<not> truthy (flowId_of ?r1)" "(''123456'' :: string) \<noteq> []"
    "net_log (signed_out roomy_storage) = []"
    by code_simp+
  have h2: "authnHref_of ?r2 = Inr JNull" "truthy (flowId_of ?r2)"
    "\<not> truthy (startEmailOtp_authenticatorId ?r2)"
    by code_simp+
  have h3: "authnHref_of ?r3 = Inl (TypeError ''res?.links?.find is not a function'')"
    by code_simp
  have a: "otpVisible (startEmailOtp (Inr ?r1) (signed_out roomy_storage))
     \<and> otpError (submitOtp example_config fragment_JSON ?net ((startEmailOtp (Inr ?r1) (signed_out roomy_storage))\<lparr>otpValue := ''123456''\<rparr>))
         = Some ''Unable to locate flowId in authorize response''
     \<and> net_log (submitOtp example_config fragment_JSON ?net ((startEmailOtp (Inr ?r1) (signed_out roomy_storage))\<lparr>otpValue := ''123456''\<rparr>)) = []"
    using startEmailOtp_defers_missing_identifiers_to_submitOtp [where res = ?r1 and authnHref = JNull
        and s = "signed_out roomy_storage" and otp = "''123456''" and C = example_config and net = ?net] h1
    by simp
  have b: "otpError (submitOtp example_config fragment_JSON ?net ((startEmailOtp (Inr ?r2) (signed_out roomy_storage))\<lparr>otpValue := ''123456''\<rparr>))
         = Some ''Unable to locate authenticatorId in authorize response''"
    using startEmailOtp_defers_missing_identifiers_to_submitOtp [where res = ?r2 and authnHref = JNull
        and s = "signed_out roomy_storage" and otp = "''123456''" and C = example_config and net = ?net] h1(3) h2
    by simp
  have c: "\<not> otpVisible (startEmailOtp (Inr ?r3) (signed_out roomy_storage))"
    using startEmailOtp_defers_missing_identifiers_to_submitOtp [where res = ?r3
        and s = "signed_out roomy_storage" and e = "TypeError ''res?.links?.find is not a function''"] h3
    by simp
  show ?thesis using a b c by simp
qed

end
